theory Spec2Isabelle
  imports Main "HOL-Library.AList"
begin

section \<open>Data model\<close>

text \<open>
  The crawler passes job listings around as Python dictionaries. The keys the
  reconciliation code reads or writes are the fields of the record below; every other
  key of the dictionary (title, salary, ...) lives in \<open>other\<close>. A field is
  \<open>None\<close> when the key is absent from the dictionary.

  Listing identifiers, keywords, dates and status values are only ever compared for
  equality and tested for emptiness, so they are modelled as \<open>string\<close> (the UTF-8
  bytes of the Python \<open>str\<close>). Text that goes through a regular expression is modelled
  as the list of its code points (\<open>pystr\<close>), since the regular expressions of the
  source work on code points.
\<close>

type_synonym pystr = "nat list"

text \<open>The values a \<open>search_keyword\<close> entry can hold: \<open>None\<close>, a \<open>str\<close>, or a list.\<close>

datatype pyval = VNone | VStr string | VList "pyval list"

text \<open>The \<open>link\<close> entry is either the compound string form or a dictionary of URLs.\<close>

datatype linkval = LinkStr pystr | LinkDict "(string \<times> pystr) list"

record job_dict =
  jobNo :: "string option"
  search_keyword :: "pyval option"
  status :: "string option"
  crawl_date :: "string option"
  last_update_date :: "string option"
  delisted_date :: "string option"
  discovery_date :: "string option"
  mongodb_update_time :: "string option"
  link :: "linkval option"
  jobAddrNoDesc :: "pystr option"
  applyAnalyze :: "pystr option"
  job :: "pystr option"
  cust :: "pystr option"
  city :: "pystr option"
  district :: "pystr option"
  other :: "string \<rightharpoonup> string"

text \<open>The empty dictionary.\<close>

definition empty_job :: job_dict where
  "empty_job = \<lparr>jobNo = None, search_keyword = None, status = None, crawl_date = None,
     last_update_date = None, delisted_date = None, discovery_date = None,
     mongodb_update_time = None, link = None, jobAddrNoDesc = None, applyAnalyze = None,
     job = None, cust = None, city = None, district = None, other = Map.empty\<rparr>"

datatype exn = KeyError | TypeError | BulkWriteError

definition JOB_STATUS_ACTIVE :: string where
  "JOB_STATUS_ACTIVE = ''active''"

definition JOB_STATUS_INACTIVE :: string where
  "JOB_STATUS_INACTIVE = ''inactive''"

text \<open>Python truthiness of a keyword value (\<open>if new_keyword\<close>, \<open>not existing_keywords\<close>).\<close>

fun truthy :: "pyval \<Rightarrow> bool" where
  "truthy VNone = False"
| "truthy (VStr s) = (s \<noteq> [])"
| "truthy (VList xs) = (xs \<noteq> [])"

section \<open>Merging the keywords of duplicate listings\<close>

subsection \<open>\<open>JobDataProcessor._merge_job_keywords\<close> (apps/crawler/processor.py)\<close>

text \<open>
  The branch for a listing whose \<open>jobNo\<close> is already in \<open>job_by_id_map\<close>:
  \<open>existing_keywords\<close> is read with default \<open>[]\<close>, turned into a list when it is a
  \<open>str\<close> and into \<open>[]\<close> when it is falsy; \<open>new_keyword\<close> is appended when it is
  truthy and not yet an element.
\<close>

definition existing_keywords_list :: "job_dict \<Rightarrow> pyval list" where
  "existing_keywords_list existing_job =
     (case search_keyword existing_job of
        None \<Rightarrow> []
      | Some (VStr s) \<Rightarrow> [VStr s]
      | Some VNone \<Rightarrow> []
      | Some (VList xs) \<Rightarrow> xs)"

definition new_keyword_of :: "job_dict \<Rightarrow> pyval" where
  "new_keyword_of j = (case search_keyword j of None \<Rightarrow> VNone | Some v \<Rightarrow> v)"

definition add_keyword :: "job_dict \<Rightarrow> job_dict \<Rightarrow> job_dict" where
  "add_keyword existing_job j =
     (let existing_keywords = existing_keywords_list existing_job;
          new_keyword = new_keyword_of j;
          existing_keywords' =
            (if truthy new_keyword \<and> new_keyword \<notin> set existing_keywords
             then existing_keywords @ [new_keyword] else existing_keywords)
      in existing_job\<lparr>search_keyword := Some (VList existing_keywords')\<rparr>)"

text \<open>
  The branch for a listing seen for the first time: a \<open>str\<close> keyword becomes a
  one-element list, an absent key becomes \<open>[]\<close>, anything else is left alone.
\<close>

definition first_seen :: "job_dict \<Rightarrow> job_dict" where
  "first_seen j =
     (case search_keyword j of
        Some (VStr s) \<Rightarrow> j\<lparr>search_keyword := Some (VList [VStr s])\<rparr>
      | None \<Rightarrow> j\<lparr>search_keyword := Some (VList [])\<rparr>
      | Some _ \<Rightarrow> j)"

text \<open>
  \<open>job_by_id_map\<close> is a Python dictionary, which keeps insertion order: an association
  list where an update keeps the position of the key and a new key goes to the end.
  A listing whose \<open>jobNo\<close> is absent, \<open>None\<close> or empty is skipped (\<open>continue\<close>).
\<close>

definition merge_step :: "(string \<times> job_dict) list \<Rightarrow> job_dict \<Rightarrow> (string \<times> job_dict) list" where
  "merge_step job_by_id_map j =
     (case jobNo j of
        None \<Rightarrow> job_by_id_map
      | Some job_id \<Rightarrow>
          if job_id = [] then job_by_id_map
          else (case map_of job_by_id_map job_id of
                  Some existing_job \<Rightarrow>
                    AList.update job_id (add_keyword existing_job j) job_by_id_map
                | None \<Rightarrow> job_by_id_map @ [(job_id, first_seen j)]))"

fun merge_loop :: "(string \<times> job_dict) list \<Rightarrow> job_dict list \<Rightarrow> (string \<times> job_dict) list" where
  "merge_loop job_by_id_map [] = job_by_id_map"
| "merge_loop job_by_id_map (j # jobs) = merge_loop (merge_step job_by_id_map j) jobs"

definition merge_job_keywords :: "job_dict list \<Rightarrow> job_dict list" where
  "merge_job_keywords jobs = (if jobs = [] then [] else map snd (merge_loop [] jobs))"

subsection \<open>\<open>Crawler._merge_job_keywords\<close> (apps/crawler/crawler.py)\<close>

text \<open>
  The older crawler indexes the dictionary (\<open>job["jobNo"]\<close>, \<open>job["search_keyword"]\<close>)
  instead of calling \<open>get\<close>, so an absent key raises \<open>KeyError\<close>; it has no check
  for a falsy identifier, and \<open>new_keyword not in existing_keywords\<close> raises
  \<open>TypeError\<close> when \<open>existing_keywords\<close> is \<open>None\<close>.
\<close>

definition crawler_add_keyword :: "job_dict \<Rightarrow> job_dict \<Rightarrow> exn + job_dict" where
  "crawler_add_keyword existing_job j =
     (case search_keyword existing_job of
        None \<Rightarrow> Inl KeyError
      | Some existing_keywords \<Rightarrow>
          (case search_keyword j of
             None \<Rightarrow> Inl KeyError
           | Some new_keyword \<Rightarrow>
               (case (case existing_keywords of VStr s \<Rightarrow> VList [VStr s] | v \<Rightarrow> v) of
                  VList ks \<Rightarrow>
                    Inr (existing_job\<lparr>search_keyword :=
                      Some (VList (if new_keyword \<notin> set ks then ks @ [new_keyword] else ks))\<rparr>)
                | _ \<Rightarrow> Inl TypeError)))"

definition crawler_first_seen :: "job_dict \<Rightarrow> exn + job_dict" where
  "crawler_first_seen j =
     (case search_keyword j of
        None \<Rightarrow> Inl KeyError
      | Some (VStr s) \<Rightarrow> Inr (j\<lparr>search_keyword := Some (VList [VStr s])\<rparr>)
      | Some _ \<Rightarrow> Inr j)"

definition crawler_merge_step ::
  "(string \<times> job_dict) list \<Rightarrow> job_dict \<Rightarrow> exn + (string \<times> job_dict) list" where
  "crawler_merge_step job_by_id_map j =
     (case jobNo j of
        None \<Rightarrow> Inl KeyError
      | Some job_id \<Rightarrow>
          (case map_of job_by_id_map job_id of
             Some existing_job \<Rightarrow>
               (case crawler_add_keyword existing_job j of
                  Inl e \<Rightarrow> Inl e
                | Inr existing_job' \<Rightarrow> Inr (AList.update job_id existing_job' job_by_id_map))
           | None \<Rightarrow>
               (case crawler_first_seen j of
                  Inl e \<Rightarrow> Inl e
                | Inr j' \<Rightarrow> Inr (job_by_id_map @ [(job_id, j')]))))"

fun crawler_merge_loop ::
  "(string \<times> job_dict) list \<Rightarrow> job_dict list \<Rightarrow> exn + (string \<times> job_dict) list" where
  "crawler_merge_loop job_by_id_map [] = Inr job_by_id_map"
| "crawler_merge_loop job_by_id_map (j # jobs) =
     (case crawler_merge_step job_by_id_map j of
        Inl e \<Rightarrow> Inl e
      | Inr job_by_id_map' \<Rightarrow> crawler_merge_loop job_by_id_map' jobs)"

definition crawler_merge_job_keywords :: "job_dict list \<Rightarrow> exn + job_dict list" where
  "crawler_merge_job_keywords jobs =
     (if jobs = [] then Inr []
      else (case crawler_merge_loop [] jobs of
              Inl e \<Rightarrow> Inl e
            | Inr job_by_id_map \<Rightarrow> Inr (map snd job_by_id_map)))"

subsection \<open>Notions used by the properties of the merge\<close>

text \<open>
  A raw listing carries no keyword or one non-empty keyword string: the pipeline sets
  \<open>search_keyword\<close> to the keyword of the search only when that keyword is not
  empty. The group of an identifier is the list of the listings of the batch with that
  identifier, in the order of the batch; the identifiers discovered are the non-empty
  ones; the merged record of a group is its first listing with a duplicate-free list
  of the keywords of the group as \<open>search_keyword\<close>. \<open>merge_inv\<close> is the invariant
  of the loop, for the listings seen so far. \<open>raw_job\<close> builds the listings of the
  examples.
\<close>

definition raw_listing :: "job_dict \<Rightarrow> bool" where
  "raw_listing j = (case search_keyword j of None \<Rightarrow> True | Some (VStr k) \<Rightarrow> k \<noteq> [] | Some _ \<Rightarrow> False)"

definition raw_keywords :: "job_dict \<Rightarrow> string set" where
  "raw_keywords j = (case search_keyword j of Some (VStr k) \<Rightarrow> {k} | _ \<Rightarrow> {})"

definition group :: "job_dict list \<Rightarrow> string \<Rightarrow> job_dict list" where
  "group jobs i = filter (\<lambda>j. jobNo j = Some i) jobs"

definition discovered_ids :: "job_dict list \<Rightarrow> string set" where
  "discovered_ids jobs = {i. i \<noteq> [] \<and> (\<exists>j\<in>set jobs. jobNo j = Some i)}"

definition merged_record :: "job_dict list \<Rightarrow> string \<Rightarrow> job_dict \<Rightarrow> bool" where
  "merged_record jobs i r =
     (\<exists>ks. distinct ks \<and> set ks = (\<Union>j\<in>set (group jobs i). raw_keywords j) \<and>
           r = (hd (group jobs i))\<lparr>search_keyword := Some (VList (map VStr ks))\<rparr>)"

definition merge_inv :: "job_dict list \<Rightarrow> (string \<times> job_dict) list \<Rightarrow> bool" where
  "merge_inv seen acc =
     (distinct (map fst acc) \<and> dom (map_of acc) = discovered_ids seen \<and>
      (\<forall>i r. map_of acc i = Some r \<longrightarrow> jobNo r = Some i \<and> merged_record seen i r))"

definition raw_job :: "string \<Rightarrow> string \<Rightarrow> string \<Rightarrow> job_dict" where
  "raw_job job_id title keyword =
     empty_job\<lparr>jobNo := Some job_id, search_keyword := Some (VStr keyword),
       status := Some ''active'', other := [''jobName'' \<mapsto> title]\<rparr>"

text \<open>
  A listing with an identifier; a dictionary whose records all carry a list of keywords;
  a listing with an identifier and a non-empty keyword string, as the older crawler
  builds them.
\<close>

definition has_listing_id :: "job_dict \<Rightarrow> bool" where
  "has_listing_id j = (case jobNo j of None \<Rightarrow> False | Some i \<Rightarrow> i \<noteq> [])"

definition keyword_lists :: "(string \<times> job_dict) list \<Rightarrow> bool" where
  "keyword_lists acc = list_all (\<lambda>p. case search_keyword (snd p) of Some (VList ks) \<Rightarrow> True | _ \<Rightarrow> False) acc"

definition complete_listing :: "job_dict \<Rightarrow> bool" where
  "complete_listing j =
     (has_listing_id j \<and> (case search_keyword j of Some (VStr k) \<Rightarrow> k \<noteq> [] | _ \<Rightarrow> False))"

section \<open>Field normalisation (src/utils/text_processing.py)\<close>

subsection \<open>\<open>split_city_district\<close>\<close>

text \<open>
  The two patterns are \<open>^(.*?[city])(.*?[district])$\<close> and \<open>^(.*?[city])$\<close>, tried in
  this order with \<open>re.match\<close>. The character classes hold the code points below.
  In a Python regular expression \<open>.\<close> matches any character but a newline, and
  \<open>$\<close> matches at the end of the string and just before a newline that ends it.
\<close>

definition newline :: nat where
  "newline = 10"

definition city_suffix :: "nat \<Rightarrow> bool" where
  "city_suffix c = (c = 0x5E02 \<or> c = 0x7E23)"

definition district_suffix :: "nat \<Rightarrow> bool" where
  "district_suffix c = (c = 0x5340 \<or> c = 0x9109 \<or> c = 0x93AE \<or> c = 0x5E02)"

definition at_end :: "pystr \<Rightarrow> bool" where
  "at_end rest = (rest = [] \<or> rest = [newline])"

text \<open>
  A group \<open>(.*?[cls])\<close> followed by the rest of the pattern \<open>k\<close>, which receives
  the text of the group and the remaining input. The quantifier is lazy: the matcher
  first tries to close the group at the current character and only when the rest of
  the pattern fails lets \<open>.\<close> take the character and moves on.
\<close>

fun lazy_group :: "(nat \<Rightarrow> bool) \<Rightarrow> (pystr \<Rightarrow> pystr \<Rightarrow> 'a option) \<Rightarrow> pystr \<Rightarrow> pystr \<Rightarrow> 'a option" where
  "lazy_group cls k grp [] = None"
| "lazy_group cls k grp (c # cs) =
     (case (if cls c then k (grp @ [c]) cs else None) of
        Some r \<Rightarrow> Some r
      | None \<Rightarrow> if c \<noteq> newline then lazy_group cls k (grp @ [c]) cs else None)"

definition city_district_pattern :: "pystr \<Rightarrow> (pystr \<times> pystr) option" where
  "city_district_pattern address =
     lazy_group city_suffix
       (\<lambda>g1 rest. lazy_group district_suffix
          (\<lambda>g2 rest'. if at_end rest' then Some (g1, g2) else None) [] rest)
       [] address"

definition city_pattern :: "pystr \<Rightarrow> pystr option" where
  "city_pattern address =
     lazy_group city_suffix (\<lambda>g1 rest. if at_end rest then Some g1 else None) [] address"

definition split_city_district :: "pystr \<Rightarrow> pystr \<times> pystr" where
  "split_city_district address =
     (case city_district_pattern address of
        Some (c, d) \<Rightarrow> (c, d)
      | None \<Rightarrow>
          (case city_pattern address of
             Some c \<Rightarrow> (c, [])
           | None \<Rightarrow> ([], address)))"

text \<open>
  What the claims about \<open>split_city_district\<close> speak of: the address without the
  newline that may end it, a text that ends in a character of a class, an address
  made of a city part and a district part, and an address that is a city only.
\<close>

definition line :: "pystr \<Rightarrow> pystr" where
  "line s = (if s \<noteq> [] \<and> last s = newline then butlast s else s)"

definition ends_with :: "(nat \<Rightarrow> bool) \<Rightarrow> pystr \<Rightarrow> bool" where
  "ends_with cls s = (s \<noteq> [] \<and> cls (last s))"

definition city_then_district :: "pystr \<Rightarrow> bool" where
  "city_then_district address =
     (newline \<notin> set (line address) \<and> (\<exists>c\<in>set (butlast (line address)). city_suffix c) \<and>
      ends_with district_suffix (line address))"

definition city_only :: "pystr \<Rightarrow> bool" where
  "city_only address = (newline \<notin> set (line address) \<and> ends_with city_suffix (line address))"

text \<open>The addresses of the examples, as code points.\<close>

definition xinzhu_east :: pystr where
  "xinzhu_east = [0x65B0, 0x7AF9, 0x5E02, 0x6771, 0x5340]"

definition unknown_address :: pystr where
  "unknown_address = [0x4E0D, 0x660E, 0x5730, 0x5740]"

definition taipei_city :: pystr where
  "taipei_city = [0x53F0, 0x5317, 0x5E02]"

subsection \<open>\<open>split_link_field\<close>\<close>

text \<open>
  Each URL is found with \<open>re.search\<close> and a pattern \<open>'key':\s*(//[^,}]+)\<close>: the
  leftmost place where the quoted key and a colon are followed by optional white
  space, two slashes and at least one character other than a comma and a closing
  brace; the group is the two slashes and the longest such run. \<open>\s\<close> matches the
  Unicode white space characters.
\<close>

definition is_space :: "nat \<Rightarrow> bool" where
  "is_space c =
     ((9 \<le> c \<and> c \<le> 13) \<or> (28 \<le> c \<and> c \<le> 32) \<or> c = 0x85 \<or> c = 0xA0 \<or> c = 0x1680 \<or>
      (0x2000 \<le> c \<and> c \<le> 0x200A) \<or> c = 0x2028 \<or> c = 0x2029 \<or> c = 0x202F \<or>
      c = 0x205F \<or> c = 0x3000)"

definition of_ascii :: "string \<Rightarrow> pystr" where
  "of_ascii s = map of_char s"

definition url_char :: "nat \<Rightarrow> bool" where
  "url_char c = (c \<noteq> of_char CHR '','' \<and> c \<noteq> of_char CHR ''}'')"

definition match_url_at :: "pystr \<Rightarrow> pystr \<Rightarrow> pystr option" where
  "match_url_at key s =
     (if take (length key) s = key then
        (case dropWhile is_space (drop (length key) s) of
           a # b # c # rest \<Rightarrow>
             if a = of_char CHR ''/'' \<and> b = of_char CHR ''/'' \<and> url_char c
             then Some (a # b # takeWhile url_char (c # rest)) else None
         | _ \<Rightarrow> None)
      else None)"

fun search_url :: "pystr \<Rightarrow> pystr \<Rightarrow> pystr option" where
  "search_url key [] = match_url_at key []"
| "search_url key (c # cs) =
     (case match_url_at key (c # cs) of Some g \<Rightarrow> Some g | None \<Rightarrow> search_url key cs)"

definition startswith :: "pystr \<Rightarrow> pystr \<Rightarrow> bool" where
  "startswith s p = (take (length p) s = p)"

text \<open>\<open>if url and not url.startswith(("http:", "https:")): url = "https:" + url\<close>\<close>

definition add_protocol :: "pystr \<Rightarrow> pystr" where
  "add_protocol url =
     (if url \<noteq> [] \<and> \<not> (startswith url (of_ascii ''http:'') \<or> startswith url (of_ascii ''https:''))
      then of_ascii ''https:'' @ url else url)"

definition found_or_empty :: "pystr option \<Rightarrow> pystr" where
  "found_or_empty m = (case m of Some g \<Rightarrow> g | None \<Rightarrow> [])"

text \<open>The literal part of a pattern: the key in single quotes (code point 39) and a colon.\<close>

definition quoted_key :: "string \<Rightarrow> pystr" where
  "quoted_key name = 39 # of_ascii name @ [39, 58]"

definition split_link_field :: "pystr \<Rightarrow> pystr \<times> pystr \<times> pystr" where
  "split_link_field link_str =
     (let apply_analyze_url = found_or_empty (search_url (quoted_key ''applyAnalyze'') link_str);
          job_url = found_or_empty (search_url (quoted_key ''job'') link_str);
          company_url = found_or_empty (search_url (quoted_key ''cust'') link_str)
      in (add_protocol apply_analyze_url, add_protocol job_url, add_protocol company_url))"


section \<open>Listing storage\<close>

subsection \<open>\<open>MongoDBManager\<close> (src/database/mongodb_manager.py)\<close>

text \<open>
  The \<open>jobs\<close> collection is the list of its documents. A document has the same keys
  as a job dictionary. \<open>update_many\<close> rewrites every document that matches the
  filter; the functions return the new collection next to the count the source returns.
  The current date (\<open>today\<close>) and time (\<open>now\<close>) are parameters.
\<close>

type_synonym collection = "job_dict list"

text \<open>The filter \<open>{'jobNo': {'$nin': ids}}\<close> also matches a document without \<open>jobNo\<close>.\<close>

definition jobNo_nin :: "string list \<Rightarrow> job_dict \<Rightarrow> bool" where
  "jobNo_nin ids doc = (case jobNo doc of None \<Rightarrow> True | Some i \<Rightarrow> i \<notin> set ids)"

definition jobNo_in :: "string list \<Rightarrow> job_dict \<Rightarrow> bool" where
  "jobNo_in ids doc = (case jobNo doc of None \<Rightarrow> False | Some i \<Rightarrow> i \<in> set ids)"

definition set_delisted :: "string \<Rightarrow> job_dict \<Rightarrow> job_dict" where
  "set_delisted today doc =
     doc\<lparr>status := Some ''inactive'', last_update_date := Some today,
         delisted_date := Some today\<rparr>"

definition update_job_status :: "string \<Rightarrow> string list \<Rightarrow> collection \<Rightarrow> nat \<times> collection" where
  "update_job_status today current_job_ids db =
     (if current_job_ids = [] then (0, db)
      else
        (length (filter (\<lambda>doc. jobNo_nin current_job_ids doc \<and> status doc = Some ''active'') db),
         map (\<lambda>doc. if jobNo_nin current_job_ids doc \<and> status doc = Some ''active''
                    then set_delisted today doc else doc) db))"

text \<open>
  \<open>get_existing_jobs\<close> walks the cursor and fills a dictionary; a later document
  with the same \<open>jobNo\<close> overwrites an earlier one, and a document without
  \<open>status\<close> counts as active.
\<close>

fun existing_loop :: "(string \<rightharpoonup> string) \<Rightarrow> collection \<Rightarrow> (string \<rightharpoonup> string)" where
  "existing_loop existing_job_dict [] = existing_job_dict"
| "existing_loop existing_job_dict (doc # cursor) =
     existing_loop
       (case jobNo doc of
          None \<Rightarrow> existing_job_dict
        | Some i \<Rightarrow>
            existing_job_dict(i \<mapsto> (case status doc of Some s \<Rightarrow> s | None \<Rightarrow> ''active'')))
       cursor"

definition get_existing_jobs :: "collection \<Rightarrow> (string \<rightharpoonup> string)" where
  "get_existing_jobs db = existing_loop Map.empty db"

definition set_reactivated :: "string \<Rightarrow> job_dict \<Rightarrow> job_dict" where
  "set_reactivated today doc =
     doc\<lparr>status := Some ''active'', last_update_date := Some today, delisted_date := None\<rparr>"

definition reactivate_jobs :: "string \<Rightarrow> string list \<Rightarrow> collection \<Rightarrow> nat \<times> collection" where
  "reactivate_jobs today job_ids db =
     (if job_ids = [] then (0, db)
      else
        (length (filter (\<lambda>doc. jobNo_in job_ids doc \<and> status doc = Some ''inactive'') db),
         map (\<lambda>doc. if jobNo_in job_ids doc \<and> status doc = Some ''inactive''
                    then set_reactivated today doc else doc) db))"

text \<open>
  \<open>insert_jobs\<close> stamps every job with \<open>mongodb_update_time\<close> and sends one
  \<open>UpdateOne({'jobNo': job['jobNo']}, {'$set': job, '$setOnInsert': {'discovery_date':
  today}}, upsert=True)\<close> per job. \<open>$set: job\<close> writes every key the job has and
  leaves every other key of the document as it is; it removes nothing.
\<close>

definition or_else :: "'a option \<Rightarrow> 'a option \<Rightarrow> 'a option" where
  "or_else new old = (case new of Some v \<Rightarrow> Some v | None \<Rightarrow> old)"

definition set_fields :: "job_dict \<Rightarrow> job_dict \<Rightarrow> job_dict" where
  "set_fields doc j =
     \<lparr>jobNo = or_else (jobNo j) (jobNo doc),
      search_keyword = or_else (search_keyword j) (search_keyword doc),
      status = or_else (status j) (status doc),
      crawl_date = or_else (crawl_date j) (crawl_date doc),
      last_update_date = or_else (last_update_date j) (last_update_date doc),
      delisted_date = or_else (delisted_date j) (delisted_date doc),
      discovery_date = or_else (discovery_date j) (discovery_date doc),
      mongodb_update_time = or_else (mongodb_update_time j) (mongodb_update_time doc),
      link = or_else (link j) (link doc),
      jobAddrNoDesc = or_else (jobAddrNoDesc j) (jobAddrNoDesc doc),
      applyAnalyze = or_else (applyAnalyze j) (applyAnalyze doc),
      job = or_else (job j) (job doc),
      cust = or_else (cust j) (cust doc),
      city = or_else (city j) (city doc),
      district = or_else (district j) (district doc),
      other = other doc ++ other j\<rparr>"

text \<open>
  One upsert: the first document with the job's \<open>jobNo\<close> is updated; when there is
  none, a new document is inserted, built from the filter, \<open>$set\<close> and
  \<open>$setOnInsert\<close>.
\<close>

fun update_one :: "string \<Rightarrow> job_dict \<Rightarrow> collection \<Rightarrow> collection" where
  "update_one job_id j [] = []"
| "update_one job_id j (doc # db) =
     (if jobNo doc = Some job_id then set_fields doc j # db else doc # update_one job_id j db)"

definition upsert_one :: "string \<Rightarrow> string \<Rightarrow> job_dict \<Rightarrow> collection \<Rightarrow> collection" where
  "upsert_one today job_id j db =
     (if \<exists>doc\<in>set db. jobNo doc = Some job_id then update_one job_id j db
      else db @ [(set_fields (empty_job\<lparr>jobNo := Some job_id\<rparr>) j)\<lparr>discovery_date := Some today\<rparr>])"

text \<open>
  \<open>bulk_write\<close> is ordered: the operations run in turn and the first one the server
  rejects stops the batch, the earlier writes staying. The server rejects an update
  whose \<open>$set\<close> and \<open>$setOnInsert\<close> both name \<open>discovery_date\<close>.
\<close>

fun bulk_write :: "string \<Rightarrow> (string \<times> job_dict) list \<Rightarrow> collection \<Rightarrow> exn option \<times> collection" where
  "bulk_write today [] db = (None, db)"
| "bulk_write today ((job_id, j) # operations) db =
     (if discovery_date j \<noteq> None then (Some BulkWriteError, db)
      else bulk_write today operations (upsert_one today job_id j db))"

text \<open>
  Building the operations reads \<open>job['jobNo']\<close>, which raises \<open>KeyError\<close> before
  anything is written. The result is the raised exception, if any, and the collection
  afterwards; the count the source returns is left out.
\<close>

fun operations_of :: "job_dict list \<Rightarrow> exn + (string \<times> job_dict) list" where
  "operations_of [] = Inr []"
| "operations_of (j # jobs) =
     (case jobNo j of
        None \<Rightarrow> Inl KeyError
      | Some job_id \<Rightarrow>
          (case operations_of jobs of Inl e \<Rightarrow> Inl e | Inr ops \<Rightarrow> Inr ((job_id, j) # ops)))"

definition insert_jobs :: "string \<Rightarrow> string \<Rightarrow> job_dict list \<Rightarrow> collection \<Rightarrow> exn option \<times> collection" where
  "insert_jobs now today jobs db =
     (if jobs = [] then (None, db)
      else (case operations_of (map (\<lambda>j. j\<lparr>mongodb_update_time := Some now\<rparr>) jobs) of
              Inl e \<Rightarrow> (Some e, db)
            | Inr operations \<Rightarrow> bulk_write today operations db))"

subsection \<open>\<open>FileJobStorage\<close> (apps/crawler/storage.py)\<close>

text \<open>The in-memory backend keeps \<open>_jobs_cache\<close>, a dictionary from \<open>jobNo\<close> to job.\<close>

type_synonym jobs_cache = "(string \<times> job_dict) list"

definition file_update_job_status :: "string \<Rightarrow> string list \<Rightarrow> jobs_cache \<Rightarrow> nat \<times> jobs_cache" where
  "file_update_job_status today current_job_ids cache =
     (if current_job_ids = [] \<or> cache = [] then (0, cache)
      else
        (length (filter (\<lambda>(job_id, j). job_id \<notin> set current_job_ids \<and> status j = Some JOB_STATUS_ACTIVE) cache),
         map (\<lambda>(job_id, j).
                (job_id, if job_id \<notin> set current_job_ids \<and> status j = Some JOB_STATUS_ACTIVE
                         then j\<lparr>status := Some JOB_STATUS_INACTIVE, last_update_date := Some today,
                                delisted_date := Some today\<rparr>
                         else j)) cache))"


section \<open>Reconciliation (apps/crawler/processor.py)\<close>

subsection \<open>\<open>JobDataProcessor._process_job_status\<close>\<close>

text \<open>
  \<open>existing_jobs\<close> maps the identifier of every stored listing to its status.
  Every job with an identifier gets \<open>last_update_date\<close>; one whose stored status is
  inactive is set active and loses its \<open>delisted_date\<close> key (\<open>job.pop\<close>).
\<close>

definition job_status_step :: "string \<Rightarrow> (string \<rightharpoonup> string) \<Rightarrow> job_dict \<Rightarrow> job_dict" where
  "job_status_step today existing_jobs j =
     (case jobNo j of
        None \<Rightarrow> j
      | Some job_id \<Rightarrow>
          if job_id = [] then j
          else (case existing_jobs job_id of
                  Some s \<Rightarrow>
                    (let j' = j\<lparr>last_update_date := Some today\<rparr>
                     in if s = JOB_STATUS_INACTIVE
                        then j'\<lparr>status := Some JOB_STATUS_ACTIVE, delisted_date := None\<rparr>
                        else j')
                | None \<Rightarrow> j\<lparr>last_update_date := Some today\<rparr>))"

definition process_job_status :: "string \<Rightarrow> job_dict list \<Rightarrow> (string \<rightharpoonup> string) \<Rightarrow> job_dict list" where
  "process_job_status today jobs existing_jobs =
     (if jobs = [] \<or> existing_jobs = Map.empty then jobs
      else map (job_status_step today existing_jobs) jobs)"

subsection \<open>\<open>JobDataProcessor._process_job_fields\<close>\<close>

definition dict_get :: "(string \<times> pystr) list \<Rightarrow> string \<Rightarrow> pystr" where
  "dict_get d k = (case map_of d k of Some v \<Rightarrow> v | None \<Rightarrow> [])"

text \<open>
  The body of the \<open>try\<close>: the three URLs come from the dictionary, each with the
  protocol added, or from \<open>split_link_field\<close> when \<open>link\<close> is a string.
\<close>

definition link_urls :: "linkval \<Rightarrow> pystr \<times> pystr \<times> pystr" where
  "link_urls l =
     (case l of
        LinkDict d \<Rightarrow>
          (add_protocol (dict_get d ''applyAnalyze''), add_protocol (dict_get d ''job''),
           add_protocol (dict_get d ''cust''))
      | LinkStr s \<Rightarrow> split_link_field s)"

text \<open>\<open>if 'link' in job and job['link']\<close>: an empty string or dictionary is skipped.\<close>

definition link_truthy :: "linkval \<Rightarrow> bool" where
  "link_truthy l = (case l of LinkDict d \<Rightarrow> d \<noteq> [] | LinkStr s \<Rightarrow> s \<noteq> [])"

definition link_step :: "job_dict \<Rightarrow> job_dict" where
  "link_step j =
     (case link j of
        None \<Rightarrow> j
      | Some l \<Rightarrow>
          if link_truthy l
          then (case link_urls l of
                  (apply_analyze_url, job_detail_url, company_url) \<Rightarrow>
                    j\<lparr>applyAnalyze := Some apply_analyze_url, job := Some job_detail_url,
                      cust := Some company_url\<rparr>)
          else j)"

definition address_step :: "job_dict \<Rightarrow> job_dict" where
  "address_step j =
     (case jobAddrNoDesc j of
        None \<Rightarrow> j
      | Some a \<Rightarrow>
          if a = [] then j
          else (case split_city_district a of
                  (c, d) \<Rightarrow> j\<lparr>city := Some c, district := Some d\<rparr>))"

definition process_job_fields :: "job_dict list \<Rightarrow> job_dict list" where
  "process_job_fields jobs = map address_step (map link_step jobs)"

subsection \<open>\<open>JobDataProcessor.process_jobs\<close>\<close>

text \<open>
  \<open>existing_jobs\<close> is optional; the status step runs only when it is given and not
  empty.
\<close>

definition process_jobs :: "string \<Rightarrow> job_dict list \<Rightarrow> (string \<rightharpoonup> string) option \<Rightarrow> job_dict list" where
  "process_jobs today jobs existing_jobs =
     (if jobs = [] then []
      else
        (let deduplicated_jobs = merge_job_keywords jobs;
             deduplicated_jobs' =
               (case existing_jobs of
                  None \<Rightarrow> deduplicated_jobs
                | Some e \<Rightarrow>
                    if e = Map.empty then deduplicated_jobs
                    else process_job_status today deduplicated_jobs e)
         in process_job_fields deduplicated_jobs'))"

subsection \<open>Reconcile and save: \<open>CrawlerOrchestrator.crawl\<close>, steps 4 to 6 (apps/crawler/orchestrator.py)\<close>

text \<open>
  \<open>existing_jobs = storage.get_existing_jobs()\<close>,
  \<open>processed_jobs = processor.process_jobs(all_jobs, existing_jobs)\<close>,
  \<open>storage.save_jobs(processed_jobs)\<close>, with the MongoDB storage, whose
  \<open>save_jobs\<close> returns at once on an empty list and calls \<open>insert_jobs\<close> otherwise.
\<close>

definition save_jobs :: "string \<Rightarrow> string \<Rightarrow> job_dict list \<Rightarrow> collection \<Rightarrow> exn option \<times> collection" where
  "save_jobs now today jobs db = (if jobs = [] then (None, db) else insert_jobs now today jobs db)"

definition crawl_reconcile_and_save ::
  "string \<Rightarrow> string \<Rightarrow> job_dict list \<Rightarrow> collection \<Rightarrow> exn option \<times> collection" where
  "crawl_reconcile_and_save now today all_jobs db =
     (let existing_jobs = get_existing_jobs db;
          processed_jobs = process_jobs today all_jobs (Some existing_jobs)
      in save_jobs now today processed_jobs db)"


section \<open>Notions used by the properties of the storage and of the reconciliation\<close>

text \<open>
  A stored listing of the examples. A listing just marked inactive, and one just
  reactivated, are the listing before with three keys rewritten. \<open>updated_by\<close> is
  what a batch of upserts does to one stored document. The coupling of \<open>status\<close>
  and \<open>delisted_date\<close>: a document is inactive exactly when it has a
  \<open>delisted_date\<close>, and active exactly when it has none.
\<close>

definition stored_job :: "string \<Rightarrow> string \<Rightarrow> string option \<Rightarrow> string \<Rightarrow> job_dict" where
  "stored_job job_id st delisted keyword =
     empty_job\<lparr>jobNo := Some job_id, search_keyword := Some (VList [VStr keyword]),
       status := Some st, delisted_date := delisted, discovery_date := Some ''2024-01-01''\<rparr>"

definition deactivated :: "string \<Rightarrow> job_dict \<Rightarrow> job_dict \<Rightarrow> bool" where
  "deactivated today doc doc' =
     (doc' = doc\<lparr>status := Some ''inactive'', last_update_date := Some today,
                  delisted_date := Some today\<rparr>)"

definition updated_by :: "(string \<times> job_dict) list \<Rightarrow> job_dict \<Rightarrow> job_dict" where
  "updated_by ops doc =
     (case jobNo doc of
        None \<Rightarrow> doc
      | Some i \<Rightarrow> (case map_of ops i of None \<Rightarrow> doc | Some j \<Rightarrow> set_fields doc j))"

definition status_delisted_coupled :: "job_dict \<Rightarrow> bool" where
  "status_delisted_coupled doc =
     (((status doc = Some ''inactive'') = (delisted_date doc \<noteq> None)) \<and>
      ((status doc = Some ''active'') = (delisted_date doc = None)))"

definition reactivated :: "string \<Rightarrow> job_dict \<Rightarrow> job_dict \<Rightarrow> bool" where
  "reactivated today j j' =
     (j' = j\<lparr>status := Some ''active'', last_update_date := Some today, delisted_date := None\<rparr>)"




text \<open>
  For the proofs about \<open>split_city_district\<close>: a rest of the input that the district
  group can match up to the end, and the two parts of an address cut after its first
  city suffix.
\<close>

definition district_to_end :: "pystr \<Rightarrow> bool" where
  "district_to_end rest = (newline \<notin> set (line rest) \<and> ends_with district_suffix (line rest))"

definition city_part :: "pystr \<Rightarrow> pystr" where
  "city_part t = takeWhile (\<lambda>x. \<not> city_suffix x) t @ [hd (dropWhile (\<lambda>x. \<not> city_suffix x) t)]"

definition district_part :: "pystr \<Rightarrow> pystr" where
  "district_part t = tl (dropWhile (\<lambda>x. \<not> city_suffix x) t)"

section \<open>The retrying transport (src/utils/http_adapter.py)\<close>

text \<open>
  \<open>HttpAdapter.request\<close> and \<open>HttpAdapter.async_request\<close> run the same loop. The
  server and the network are an oracle that gives the outcome of each request sent, by
  its number. What the transport does is recorded as a list of events: a request sent,
  the jittered delay before retry number \<open>r\<close> (a sleep of
  \<open>random.uniform(min_retry_delay * r, max_retry_delay * r)\<close> seconds), a sleep of the
  seconds read from \<open>Retry-After\<close>, and a change of \<open>User-Agent\<close>.
\<close>

text \<open>
  The \<open>Retry-After\<close> header of a response: absent, a text that \<open>int\<close> reads as a
  number, or a text that makes \<open>int\<close> raise \<open>ValueError\<close>.
\<close>

datatype retry_after = Absent | Seconds int | NotANumber

text \<open>
  The outcome of a request sent: a response (its status and its \<open>Retry-After\<close>), a
  \<open>httpx.RequestError\<close>, or any other exception raised in the \<open>try\<close>.
\<close>

datatype outcome = Response nat retry_after | RequestError | OtherError

datatype event = Request | Backoff nat | Wait int | RotateUserAgent

text \<open>
  How a call ends without a payload. \<open>async_request\<close> returns a dictionary with an
  \<open>error\<close> entry, \<open>request\<close> raises an exception with the same message.
\<close>

datatype failure = HttpStatusFailure | RequestFailure | UnexpectedFailure | MaxRetriesReached

record adapter =
  max_retries :: nat
  rotate_user_agent :: bool

text \<open>\<open>wait_time = int(response.headers.get("Retry-After", 60))\<close>\<close>

fun wait_time :: "retry_after \<Rightarrow> int option" where
  "wait_time Absent = Some 60"
| "wait_time (Seconds w) = Some w"
| "wait_time NotANumber = None"

text \<open>
  \<open>time.sleep\<close> raises \<open>ValueError\<close> on a negative number and
  \<open>OverflowError\<close> on a number beyond its range, a 64-bit count of nanoseconds:
  more than 9223372036 seconds. \<open>asyncio.sleep\<close> raises on neither.
\<close>

definition sleep_raises :: "int \<Rightarrow> bool" where
  "sleep_raises w = (w < 0 \<or> 9223372036 < w)"

text \<open>\<open>response.raise_for_status()\<close> raises unless the status is a success (2xx).\<close>

definition is_success :: "nat \<Rightarrow> bool" where
  "is_success st = (200 \<le> st \<and> st < 300)"

text \<open>\<open>if retries > 0: delay = random.uniform(...); sleep(delay)\<close>, at the top of the loop.\<close>

definition backoff_events :: "nat \<Rightarrow> event list" where
  "backoff_events retries = (if retries > 0 then [Backoff retries] else [])"

definition prepend :: "event list \<Rightarrow> event list \<times> 'a \<Rightarrow> event list \<times> 'a" where
  "prepend es r = (es @ fst r, snd r)"

text \<open>
  The loop \<open>while retries < self.max_retries\<close>. \<open>sync\<close> tells the two methods apart
  where they differ inside the loop: \<open>time.sleep(wait_time)\<close> can raise, inside the
  \<open>try\<close>, where \<open>asyncio.sleep(wait_time)\<close> cannot. So can
  \<open>int(...)\<close> on a \<open>Retry-After\<close> that is not a number, in both methods; in
  either case the time of \<open>Retry-After\<close> is not slept. An exception in
  the \<open>try\<close> is counted as a retry when one is left after it
  (\<open>retries < self.max_retries - 1\<close>) and ends the call otherwise; 403 and 429 always
  count as a retry and go on with the loop.
\<close>

function request_loop ::
  "bool \<Rightarrow> adapter \<Rightarrow> (nat \<Rightarrow> outcome) \<Rightarrow> nat \<Rightarrow> nat \<Rightarrow> event list \<times> (failure + nat)" where
  "request_loop sync a server retries sent =
     (if retries < max_retries a then
        (let caught = (\<lambda>es f.
               if retries + 1 < max_retries a
               then prepend es (request_loop sync a server (retries + 1) (sent + 1))
               else (es, Inl f))
         in case server sent of
              Response st ra \<Rightarrow>
                if st = 403 then
                  prepend (backoff_events retries @ [Request] @
                           (if rotate_user_agent a then [RotateUserAgent] else []))
                    (request_loop sync a server (retries + 1) (sent + 1))
                else if st = 429 then
                  (case wait_time ra of
                     None \<Rightarrow> caught (backoff_events retries @ [Request]) UnexpectedFailure
                   | Some w \<Rightarrow>
                       if sync \<and> sleep_raises w
                       then caught (backoff_events retries @ [Request]) UnexpectedFailure
                       else prepend (backoff_events retries @ [Request, Wait w])
                              (request_loop sync a server (retries + 1) (sent + 1)))
                else if is_success st then (backoff_events retries @ [Request], Inr st)
                else caught (backoff_events retries @ [Request]) HttpStatusFailure
            | RequestError \<Rightarrow> caught (backoff_events retries @ [Request]) RequestFailure
            | OtherError \<Rightarrow> caught (backoff_events retries @ [Request]) UnexpectedFailure)
      else ([], Inl MaxRetriesReached))"
  by pat_completeness auto
termination
  by (relation "measure (\<lambda>(sync, a, server, retries, sent). max_retries a - retries)") auto

declare request_loop.simps [simp del]

text \<open>
  Before the loop the request counter goes up by one, and every fifth request changes
  the \<open>User-Agent\<close>.
\<close>

definition rotation_events :: "adapter \<Rightarrow> nat \<Rightarrow> event list" where
  "rotation_events a request_count =
     (if rotate_user_agent a \<and> (request_count + 1) mod 5 = 0 then [RotateUserAgent] else [])"

definition request :: "adapter \<Rightarrow> (nat \<Rightarrow> outcome) \<Rightarrow> nat \<Rightarrow> event list \<times> (failure + nat)" where
  "request a server request_count =
     prepend (rotation_events a request_count) (request_loop True a server 0 0)"

definition async_request :: "adapter \<Rightarrow> (nat \<Rightarrow> outcome) \<Rightarrow> nat \<Rightarrow> event list \<times> (failure + nat)" where
  "async_request a server request_count =
     prepend (rotation_events a request_count) (request_loop False a server 0 0)"

text \<open>
  The adapter the crawler builds (\<open>MAX_RETRIES = 3\<close>, rotation on), and a server that
  answers the first request with 429 and \<open>Retry-After: 10\<close> and every later one with
  200.
\<close>

definition crawler_adapter :: adapter where
  "crawler_adapter = \<lparr>max_retries = 3, rotate_user_agent = True\<rparr>"

definition limited_once :: "nat \<Rightarrow> outcome" where
  "limited_once sent = (if sent = 0 then Response 429 (Seconds 10) else Response 200 Absent)"

text \<open>
  The two ways a response with status 429 is handled: the time of \<open>Retry-After\<close> is
  read and slept, or reading or sleeping it raises. Every such response falls under one
  of them. A server that answers the first request with 429 and an HTTP date in
  \<open>Retry-After\<close>.
\<close>

definition retry_after_slept :: "bool \<Rightarrow> retry_after \<Rightarrow> int \<Rightarrow> bool" where
  "retry_after_slept sync ra w = (wait_time ra = Some w \<and> \<not> (sync \<and> sleep_raises w))"

definition retry_after_rejected :: "bool \<Rightarrow> retry_after \<Rightarrow> bool" where
  "retry_after_rejected sync ra =
     (case wait_time ra of None \<Rightarrow> True | Some w \<Rightarrow> sync \<and> sleep_raises w)"

definition limited_with_date :: "nat \<Rightarrow> outcome" where
  "limited_with_date sent = (if sent = 0 then Response 429 NotANumber else Response 200 Absent)"

section \<open>Properties of the keyword merge\<close>

lemma group_snoc: "group (seen @ [j]) i = (if jobNo j = Some i then group seen i @ [j] else group seen i)"
  by (simp add: group_def)

lemma discovered_ids_snoc:
  "discovered_ids (seen @ [j]) =
     (case jobNo j of None \<Rightarrow> discovered_ids seen
      | Some i \<Rightarrow> if i = [] then discovered_ids seen else insert i (discovered_ids seen))"
  by (auto simp: discovered_ids_def split: option.splits)

lemma group_empty_iff: "i \<noteq> [] \<Longrightarrow> (group seen i = []) = (i \<notin> discovered_ids seen)"
  by (auto simp: group_def discovered_ids_def filter_empty_conv)

lemma hd_group_jobNo: "group seen i \<noteq> [] \<Longrightarrow> jobNo (hd (group seen i)) = Some i"
proof -
  assume "group seen i \<noteq> []"
  then have "hd (group seen i) \<in> set (group seen i)" by simp
  then show ?thesis by (simp add: group_def)
qed

lemma add_keyword_merged:
  assumes m: "merged_record seen i e" and ne: "group seen i \<noteq> []"
    and raw: "raw_listing j" and id: "jobNo j = Some i"
  shows "merged_record (seen @ [j]) i (add_keyword e j)"
proof -
  from m obtain ks where ks: "distinct ks"
      "set ks = (\<Union>j\<in>set (group seen i). raw_keywords j)"
      "e = (hd (group seen i))\<lparr>search_keyword := Some (VList (map VStr ks))\<rparr>"
    unfolding merged_record_def by blast
  have g: "group (seen @ [j]) i = group seen i @ [j]" using id by (simp add: group_snoc)
  have h: "hd (group (seen @ [j]) i) = hd (group seen i)" using ne g by simp
  have ex: "existing_keywords_list e = map VStr ks"
    using ks(3) by (simp add: existing_keywords_list_def)
  show ?thesis
  proof (cases "search_keyword j")
    case None
    then have "add_keyword e j = e"
      using ex ks(3) by (simp add: add_keyword_def new_keyword_of_def Let_def)
    moreover have "raw_keywords j = {}" using None by (simp add: raw_keywords_def)
    ultimately show ?thesis
      unfolding merged_record_def using ks g h by (intro exI[of _ ks]) simp
  next
    case (Some v)
    with raw obtain k where k: "v = VStr k" "k \<noteq> []"
      by (cases v) (auto simp: raw_listing_def)
    have rk: "raw_keywords j = {k}" using Some k by (simp add: raw_keywords_def)
    show ?thesis
    proof (cases "k \<in> set ks")
      case True
      then have "add_keyword e j = e"
        using ex ks(3) Some k by (auto simp: add_keyword_def new_keyword_of_def Let_def)
      then show ?thesis
        unfolding merged_record_def using ks g h rk True
        by (intro exI[of _ ks]) auto
    next
      case False
      then have "add_keyword e j = (hd (group seen i))\<lparr>search_keyword := Some (VList (map VStr (ks @ [k])))\<rparr>"
        using ex ks(3) Some k by (auto simp: add_keyword_def new_keyword_of_def Let_def)
      then show ?thesis
        unfolding merged_record_def using ks g h rk False
        by (intro exI[of _ "ks @ [k]"]) auto
    qed
  qed
qed

lemma first_seen_merged:
  assumes e: "group seen i = []" and raw: "raw_listing j" and id: "jobNo j = Some i"
  shows "merged_record (seen @ [j]) i (first_seen j)"
proof -
  have g: "group (seen @ [j]) i = [j]" using id e by (simp add: group_snoc)
  show ?thesis
  proof (cases "search_keyword j")
    case None
    then show ?thesis
      unfolding merged_record_def using g
      by (intro exI[of _ "[]"]) (simp add: first_seen_def raw_keywords_def)
  next
    case (Some v)
    with raw obtain k where k: "v = VStr k" "k \<noteq> []"
      by (cases v) (auto simp: raw_listing_def)
    show ?thesis
      unfolding merged_record_def using g Some k
      by (intro exI[of _ "[k]"]) (simp add: first_seen_def raw_keywords_def)
  qed
qed

lemma first_seen_jobNo: "jobNo (first_seen j) = jobNo j"
  by (simp add: first_seen_def split: option.splits pyval.splits)

lemma add_keyword_jobNo: "jobNo (add_keyword e j) = jobNo e"
  by (simp add: add_keyword_def Let_def)

lemma merged_record_other:
  "jobNo j \<noteq> Some i \<Longrightarrow> merged_record (seen @ [j]) i r = merged_record seen i r"
  by (simp add: merged_record_def group_snoc)

lemma merge_step_inv:
  assumes inv: "merge_inv seen acc" and raw: "raw_listing j"
  shows "merge_inv (seen @ [j]) (merge_step acc j)"
proof (cases "jobNo j")
  case None
  then show ?thesis
    using inv by (simp add: merge_inv_def merge_step_def discovered_ids_snoc merged_record_other)
next
  case (Some i)
  show ?thesis
  proof (cases "i = []")
    case True
    have "\<And>i' r. map_of acc i' = Some r \<Longrightarrow> i' \<noteq> []"
      using inv by (auto simp: merge_inv_def discovered_ids_def dom_def)
    then have "\<And>i' r. map_of acc i' = Some r \<Longrightarrow> jobNo j \<noteq> Some i'"
      using Some True by auto
    then show ?thesis
      using inv Some True
      by (auto simp: merge_inv_def merge_step_def discovered_ids_snoc merged_record_other)
  next
    case False
    show ?thesis
    proof (cases "map_of acc i")
      case None
      then have notin: "i \<notin> discovered_ids seen" using inv by (auto simp: merge_inv_def)
      then have ge: "group seen i = []" using False by (simp add: group_empty_iff)
      have step: "merge_step acc j = acc @ [(i, first_seen j)]"
        using Some False None by (simp add: merge_step_def)
      have d: "distinct (map fst (acc @ [(i, first_seen j)]))"
        using inv None by (auto simp: merge_inv_def map_of_eq_None_iff)
      have mo: "map_of (acc @ [(i, first_seen j)]) = (map_of acc)(i \<mapsto> first_seen j)"
        using None by (auto simp: map_add_def fun_eq_iff split: option.splits)
      show ?thesis
        unfolding step merge_inv_def
        using d mo inv Some False first_seen_merged[OF ge raw Some]
        by (auto simp: merge_inv_def discovered_ids_snoc first_seen_jobNo merged_record_other)
    next
      case (Some e)
      note e = this
      then have inn: "i \<in> discovered_ids seen" using inv by (auto simp: merge_inv_def)
      then have gne: "group seen i \<noteq> []" using False by (simp add: group_empty_iff)
      have step: "merge_step acc j = AList.update i (add_keyword e j) acc"
        using \<open>jobNo j = Some i\<close> False e by (simp add: merge_step_def)
      have em: "jobNo e = Some i" "merged_record seen i e" using inv e by (auto simp: merge_inv_def)
      have d: "distinct (map fst (AList.update i (add_keyword e j) acc))"
        using inv by (simp add: merge_inv_def AList.distinct_update)
      show ?thesis
        unfolding step merge_inv_def
        using d inv \<open>jobNo j = Some i\<close> False inn add_keyword_merged[OF em(2) gne raw \<open>jobNo j = Some i\<close>] em(1)
        by (auto simp: merge_inv_def AList.update_conv' discovered_ids_snoc add_keyword_jobNo merged_record_other)
    qed
  qed
qed

lemma merge_loop_inv:
  "merge_inv seen acc \<Longrightarrow> \<forall>j\<in>set js. raw_listing j \<Longrightarrow> merge_inv (seen @ js) (merge_loop acc js)"
proof (induction js arbitrary: seen acc)
  case Nil
  then show ?case by simp
next
  case (Cons j js)
  have "merge_inv (seen @ [j]) (merge_step acc j)"
    using Cons.prems by (simp add: merge_step_inv)
  from Cons.IH[OF this] Cons.prems(2) show ?case by simp
qed

lemma merge_inv_init: "merge_inv [] []"
  by (simp add: merge_inv_def discovered_ids_def)

lemma merge_result_set:
  assumes inv: "merge_inv seen acc"
  shows "set (map snd acc) = {r. \<exists>i. map_of acc i = Some r}"
proof -
  have d: "distinct (map fst acc)" using inv by (simp add: merge_inv_def)
  have "\<And>r. (r \<in> snd ` set acc) = (\<exists>i. (i, r) \<in> set acc)" by force
  then show ?thesis by (auto simp: map_of_eq_Some_iff[OF d])
qed

lemma merge_result_ids:
  assumes inv: "merge_inv seen acc"
  shows "map jobNo (map snd acc) = map (Some \<circ> fst) acc"
proof -
  have d: "distinct (map fst acc)" using inv by (simp add: merge_inv_def)
  have "\<And>p. p \<in> set acc \<Longrightarrow> jobNo (snd p) = Some (fst p)"
  proof -
    fix p assume "p \<in> set acc"
    then have "map_of acc (fst p) = Some (snd p)" using d by simp
    then show "jobNo (snd p) = Some (fst p)" using inv by (simp add: merge_inv_def)
  qed
  then show ?thesis by simp
qed

lemma merge_job_keywords_eq: "merge_job_keywords jobs = map snd (merge_loop [] jobs)"
  by (simp add: merge_job_keywords_def)

text \<open>
  \<open>JobDataProcessor._merge_job_keywords\<close> ignores the listings without an
  identifier: the result is the result for the batch without them.
\<close>

lemma merge_step_without_id: "\<not> has_listing_id j \<Longrightarrow> merge_step acc j = acc"
  by (simp add: merge_step_def has_listing_id_def split: option.splits)

lemma merge_loop_filter: "merge_loop acc jobs = merge_loop acc (filter has_listing_id jobs)"
  by (induction jobs arbitrary: acc) (simp_all add: merge_step_without_id)

lemma merge_job_keywords_drops_listings_without_id:
  "merge_job_keywords jobs = merge_job_keywords (filter has_listing_id jobs)"
proof -
  have "map snd (merge_loop [] jobs) = map snd (merge_loop [] (filter has_listing_id jobs))"
    using merge_loop_filter[of "[]" jobs] by simp
  then show ?thesis by (auto simp: merge_job_keywords_def)
qed

text \<open>
  On listings that all have an identifier and a keyword string,
  \<open>Crawler._merge_job_keywords\<close> raises nothing and returns what
  \<open>JobDataProcessor._merge_job_keywords\<close> returns.
\<close>

lemma keyword_lists_update:
  "keyword_lists acc \<Longrightarrow> search_keyword v = Some (VList ks) \<Longrightarrow> keyword_lists (AList.update i v acc)"
  by (induction acc) (auto simp: keyword_lists_def)

lemma keyword_lists_lookup:
  "keyword_lists acc \<Longrightarrow> map_of acc i = Some e \<Longrightarrow> \<exists>ks. search_keyword e = Some (VList ks)"
proof -
  assume k: "keyword_lists acc" and m: "map_of acc i = Some e"
  from m have "(i, e) \<in> set acc" by (rule map_of_SomeD)
  with k have "case search_keyword e of Some (VList ks) \<Rightarrow> True | _ \<Rightarrow> False"
    by (auto simp: keyword_lists_def list_all_iff)
  then show ?thesis by (auto split: option.splits pyval.splits)
qed

lemma crawler_merge_step_agrees:
  assumes k: "keyword_lists acc" and c: "complete_listing j"
  shows "crawler_merge_step acc j = Inr (merge_step acc j) \<and> keyword_lists (merge_step acc j)"
proof -
  from c obtain i where i: "jobNo j = Some i" "i \<noteq> []"
    by (auto simp: complete_listing_def has_listing_id_def split: option.splits)
  from c obtain kw where kw: "search_keyword j = Some (VStr kw)" "kw \<noteq> []"
    by (auto simp: complete_listing_def split: option.splits pyval.splits)
  show ?thesis
  proof (cases "map_of acc i")
    case None
    have "keyword_lists (acc @ [(i, first_seen j)])"
      using k kw by (simp add: keyword_lists_def first_seen_def)
    then show ?thesis
      using None i kw
      by (simp add: crawler_merge_step_def merge_step_def crawler_first_seen_def first_seen_def)
  next
    case (Some e)
    from keyword_lists_lookup[OF k Some] obtain ks where ks: "search_keyword e = Some (VList ks)"
      by blast
    have a: "crawler_add_keyword e j = Inr (add_keyword e j)"
      using ks kw
      by (simp add: crawler_add_keyword_def add_keyword_def existing_keywords_list_def
          new_keyword_of_def Let_def)
    have "\<exists>ks'. search_keyword (add_keyword e j) = Some (VList ks')"
      by (simp add: add_keyword_def Let_def)
    then have "keyword_lists (AList.update i (add_keyword e j) acc)"
      using k keyword_lists_update by blast
    then show ?thesis
      using Some i a by (simp add: crawler_merge_step_def merge_step_def)
  qed
qed

lemma crawler_merge_loop_agrees:
  "keyword_lists acc \<Longrightarrow> \<forall>j\<in>set jobs. complete_listing j \<Longrightarrow>
   crawler_merge_loop acc jobs = Inr (merge_loop acc jobs)"
proof (induction jobs arbitrary: acc)
  case Nil
  then show ?case by simp
next
  case (Cons j jobs)
  have s: "crawler_merge_step acc j = Inr (merge_step acc j) \<and> keyword_lists (merge_step acc j)"
    using Cons.prems by (intro crawler_merge_step_agrees) simp_all
  then show ?case using Cons.IH[of "merge_step acc j"] Cons.prems(2) by simp
qed

lemma crawler_merge_agrees:
  "\<forall>j\<in>set jobs. complete_listing j \<Longrightarrow>
   crawler_merge_job_keywords jobs = Inr (merge_job_keywords jobs)"
  using crawler_merge_loop_agrees[of "[]" jobs]
  by (simp add: crawler_merge_job_keywords_def merge_job_keywords_def keyword_lists_def)

text \<open>
  Claim C1. For a batch of raw listings (each carries no keyword or one non-empty
  keyword string), the merge returns one record per distinct listing identifier; the
  record of an identifier is the first listing of its group with nothing changed but
  \<open>search_keyword\<close>, which is a list without duplicates of exactly the keywords of
  the members of the group. When every listing has an identifier and a keyword,
  \<open>Crawler._merge_job_keywords\<close> returns the same list.
\<close>

theorem merge_job_keywords_one_record_per_id:
  assumes raw: "\<forall>j\<in>set jobs. raw_listing j"
  shows "distinct (map jobNo (merge_job_keywords jobs)) \<and>
         jobNo ` set (merge_job_keywords jobs) = Some ` discovered_ids jobs \<and>
         (\<forall>r\<in>set (merge_job_keywords jobs).
            \<exists>i\<in>discovered_ids jobs. jobNo r = Some i \<and> merged_record jobs i r) \<and>
         ((\<forall>j\<in>set jobs. complete_listing j) \<longrightarrow>
            crawler_merge_job_keywords jobs = Inr (merge_job_keywords jobs))"
proof -
  let ?acc = "merge_loop [] jobs"
  have inv: "merge_inv jobs ?acc"
    using merge_loop_inv[OF merge_inv_init raw] by simp
  have d: "distinct (map fst ?acc)" using inv by (simp add: merge_inv_def)
  have ids: "map jobNo (merge_job_keywords jobs) = map (Some \<circ> fst) ?acc"
    using merge_result_ids[OF inv] by (simp add: merge_job_keywords_eq)
  have dom: "fst ` set ?acc = discovered_ids jobs"
    using inv by (simp add: merge_inv_def dom_map_of_conv_image_fst)
  have 1: "distinct (map jobNo (merge_job_keywords jobs))"
    unfolding ids using d by (simp add: distinct_map inj_on_def)
  have "set (map jobNo (merge_job_keywords jobs)) = Some ` fst ` set ?acc"
    unfolding ids by (simp add: image_image)
  then have 2: "jobNo ` set (merge_job_keywords jobs) = Some ` discovered_ids jobs"
    using dom by simp
  have 3: "\<forall>r\<in>set (merge_job_keywords jobs).
            \<exists>i\<in>discovered_ids jobs. jobNo r = Some i \<and> merged_record jobs i r"
  proof
    fix r assume "r \<in> set (merge_job_keywords jobs)"
    then obtain i where i: "map_of ?acc i = Some r"
      using merge_result_set[OF inv] by (auto simp: merge_job_keywords_eq)
    then have "i \<in> discovered_ids jobs" using inv by (auto simp: merge_inv_def)
    moreover have "jobNo r = Some i \<and> merged_record jobs i r"
      using inv i by (simp add: merge_inv_def)
    ultimately show "\<exists>i\<in>discovered_ids jobs. jobNo r = Some i \<and> merged_record jobs i r"
      by blast
  qed
  have 4: "(\<forall>j\<in>set jobs. complete_listing j) \<longrightarrow>
            crawler_merge_job_keywords jobs = Inr (merge_job_keywords jobs)"
    using crawler_merge_agrees by blast
  from 1 2 3 4 show ?thesis by blast
qed

text \<open>
  A listing found under \<open>python\<close> and again under \<open>java\<close> gives one record
  that carries both keywords.
\<close>

lemma merge_two_keywords_example:
  "merge_job_keywords [raw_job ''A1'' ''Engineer'' ''python'', raw_job ''A1'' ''Engineer'' ''java''] =
     [(raw_job ''A1'' ''Engineer'' ''python'')
        \<lparr>search_keyword := Some (VList [VStr ''python'', VStr ''java''])\<rparr>]"
  by (simp add: merge_job_keywords_def merge_step_def first_seen_def add_keyword_def
      existing_keywords_list_def new_keyword_of_def raw_job_def empty_job_def)

text \<open>The theorem of claim C1 at the batch of the example.\<close>

theorem merge_job_keywords_one_record_per_id_witness:
  "raw_listing (raw_job ''A1'' ''Engineer'' ''python'') \<and>
   raw_listing (raw_job ''A1'' ''Engineer'' ''java'') \<and>
   distinct (map jobNo (merge_job_keywords
     [raw_job ''A1'' ''Engineer'' ''python'', raw_job ''A1'' ''Engineer'' ''java''])) \<and>
   jobNo ` set (merge_job_keywords
     [raw_job ''A1'' ''Engineer'' ''python'', raw_job ''A1'' ''Engineer'' ''java'']) =
   Some ` discovered_ids [raw_job ''A1'' ''Engineer'' ''python'', raw_job ''A1'' ''Engineer'' ''java'']"
proof -
  have h: "\<forall>j\<in>set [raw_job ''A1'' ''Engineer'' ''python'', raw_job ''A1'' ''Engineer'' ''java'']. raw_listing j"
    by (simp add: raw_listing_def raw_job_def empty_job_def)
  show ?thesis
    using h merge_job_keywords_one_record_per_id[OF h] by simp
qed

section \<open>Properties of the lifecycle operations\<close>

text \<open>
  Claim C3 as stated fails when the list of discovered identifiers is empty: both
  backends return at once (\<open>if not current_job_ids: return 0\<close>), and a listing
  that is active and absent from the (empty) list stays active with no
  \<open>delisted_date\<close>.
\<close>

theorem update_job_status_empty_counterexample:
  "map status (snd (update_job_status ''2024-06-01'' [] [stored_job ''A1'' ''active'' None ''python''])) =
     [Some ''active''] \<and>
   map delisted_date (snd (update_job_status ''2024-06-01'' [] [stored_job ''A1'' ''active'' None ''python''])) =
     [None] \<and>
   status (stored_job ''A1'' ''active'' None ''python'') = Some ''active'' \<and>
   jobNo (stored_job ''A1'' ''active'' None ''python'') = Some ''A1'' \<and>
   ''A1'' \<notin> set ([] :: string list) \<and>
   map (status \<circ> snd)
     (snd (file_update_job_status ''2024-06-01'' [] [(''A1'', stored_job ''A1'' ''active'' None ''python'')])) =
     [Some ''active'']"
  by (simp add: update_job_status_def file_update_job_status_def stored_job_def empty_job_def)

text \<open>
  Claim C3, amended. When the list of discovered identifiers is not empty,
  \<open>update_job_status\<close> turns every stored listing that is active and whose
  identifier is not in the list into an inactive one with \<open>delisted_date\<close> and
  \<open>last_update_date\<close> set to today, and changes nothing else: a listing that is
  not active, or whose identifier is in the list, is left as it is. The same holds for
  the in-memory backend.
\<close>

theorem update_job_status_marks_missing:
  assumes ne: "current_job_ids \<noteq> []"
  shows "length (snd (update_job_status today current_job_ids db)) = length db \<and>
    (\<forall>k<length db.
       (status (db ! k) = Some ''active'' \<and> jobNo_nin current_job_ids (db ! k) \<longrightarrow>
          deactivated today (db ! k) (snd (update_job_status today current_job_ids db) ! k)) \<and>
       (status (db ! k) \<noteq> Some ''active'' \<or> \<not> jobNo_nin current_job_ids (db ! k) \<longrightarrow>
          snd (update_job_status today current_job_ids db) ! k = db ! k)) \<and>
    length (snd (file_update_job_status today current_job_ids cache)) = length cache \<and>
    (\<forall>k<length cache.
       fst (snd (file_update_job_status today current_job_ids cache) ! k) = fst (cache ! k) \<and>
       (status (snd (cache ! k)) = Some ''active'' \<and> fst (cache ! k) \<notin> set current_job_ids \<longrightarrow>
          deactivated today (snd (cache ! k))
            (snd (snd (file_update_job_status today current_job_ids cache) ! k))) \<and>
       (status (snd (cache ! k)) \<noteq> Some ''active'' \<or> fst (cache ! k) \<in> set current_job_ids \<longrightarrow>
          snd (snd (file_update_job_status today current_job_ids cache) ! k) = snd (cache ! k)))"
proof -
  have db: "snd (update_job_status today current_job_ids db) =
      map (\<lambda>doc. if jobNo_nin current_job_ids doc \<and> status doc = Some ''active''
                 then set_delisted today doc else doc) db"
    using ne by (simp add: update_job_status_def)
  have c: "snd (file_update_job_status today current_job_ids cache) =
      map (\<lambda>(job_id, j).
             (job_id, if job_id \<notin> set current_job_ids \<and> status j = Some JOB_STATUS_ACTIVE
                      then j\<lparr>status := Some JOB_STATUS_INACTIVE, last_update_date := Some today,
                             delisted_date := Some today\<rparr>
                      else j)) cache"
    using ne by (cases cache) (simp_all add: file_update_job_status_def)
  show ?thesis
    unfolding db c
    by (auto simp: deactivated_def set_delisted_def JOB_STATUS_ACTIVE_def JOB_STATUS_INACTIVE_def
        split: prod.splits)
qed

text \<open>
  The theorem of claim C3 at a collection of three listings and the list of discovered
  identifiers \<open>["B2"]\<close>.
\<close>

theorem update_job_status_marks_missing_witness:
  "[''B2''] \<noteq> ([] :: string list) \<and>
   deactivated ''2024-06-01'' (stored_job ''A1'' ''active'' None ''python'')
     (snd (update_job_status ''2024-06-01'' [''B2'']
        [stored_job ''A1'' ''active'' None ''python'', stored_job ''B2'' ''active'' None ''java'',
         stored_job ''C3'' ''inactive'' (Some ''2024-05-01'') ''java'']) ! 0) \<and>
   snd (update_job_status ''2024-06-01'' [''B2'']
        [stored_job ''A1'' ''active'' None ''python'', stored_job ''B2'' ''active'' None ''java'',
         stored_job ''C3'' ''inactive'' (Some ''2024-05-01'') ''java'']) ! 2 =
     stored_job ''C3'' ''inactive'' (Some ''2024-05-01'') ''java''"
proof -
  let ?db = "[stored_job ''A1'' ''active'' None ''python'', stored_job ''B2'' ''active'' None ''java'',
         stored_job ''C3'' ''inactive'' (Some ''2024-05-01'') ''java'']"
  have h: "[''B2''] \<noteq> ([] :: string list)" by simp
  note t = update_job_status_marks_missing[OF h, of "''2024-06-01''" ?db "[]"]
  have k0: "(0::nat) < length ?db" and k2: "(2::nat) < length ?db" by simp_all
  have a: "status (?db ! 0) = Some ''active'' \<and> jobNo_nin [''B2''] (?db ! 0)"
    by (simp add: stored_job_def empty_job_def jobNo_nin_def)
  have c: "status (?db ! 2) \<noteq> Some ''active'' \<or> \<not> jobNo_nin [''B2''] (?db ! 2)"
    by (simp add: stored_job_def empty_job_def)
  from t k0 a have 1: "deactivated ''2024-06-01'' (?db ! 0) (snd (update_job_status ''2024-06-01'' [''B2''] ?db) ! 0)"
    by blast
  from t k2 c have 2: "snd (update_job_status ''2024-06-01'' [''B2''] ?db) ! 2 = ?db ! 2"
    by blast
  from h 1 2 show ?thesis by simp
qed

lemmas eval_defs = crawl_reconcile_and_save_def save_jobs_def insert_jobs_def process_jobs_def
  merge_job_keywords_def merge_step_def first_seen_def add_keyword_def existing_keywords_list_def
  new_keyword_of_def process_job_status_def job_status_step_def process_job_fields_def
  link_step_def link_urls_def link_truthy_def address_step_def get_existing_jobs_def upsert_one_def set_fields_def or_else_def
  stored_job_def raw_job_def empty_job_def JOB_STATUS_ACTIVE_def JOB_STATUS_INACTIVE_def Let_def

text \<open>
  Claim C4 as stated fails in its last part. A listing stored as inactive with the
  keyword \<open>python\<close> reappears under \<open>java\<close>: after reconciliation and save the
  stored \<open>search_keyword\<close> is \<open>["java"]\<close>, not the union with the stored
  keywords.
\<close>

theorem reactivation_replaces_keywords_counterexample:
  "map search_keyword [stored_job ''A1'' ''inactive'' (Some ''2024-01-01'') ''python''] =
     [Some (VList [VStr ''python''])] \<and>
   map search_keyword (snd (crawl_reconcile_and_save ''2024-06-01T08:00'' ''2024-06-01''
       [raw_job ''A1'' ''Engineer'' ''java'']
       [stored_job ''A1'' ''inactive'' (Some ''2024-01-01'') ''python''])) =
     [Some (VList [VStr ''java''])]"
  by (simp add: eval_defs)

text \<open>
  Claim C5 as stated fails. A listing stored after one run with the keyword
  \<open>python\<close> is found by the next run under \<open>java\<close> only: the save replaces
  the stored \<open>search_keyword\<close>, and \<open>python\<close> is gone.
\<close>

theorem save_drops_earlier_keyword_counterexample:
  "map search_keyword [stored_job ''A1'' ''active'' None ''python''] =
     [Some (VList [VStr ''python''])] \<and>
   map search_keyword (snd (crawl_reconcile_and_save ''2024-06-02T08:00'' ''2024-06-02''
       [raw_job ''A1'' ''Engineer'' ''java'']
       [stored_job ''A1'' ''active'' None ''python''])) =
     [Some (VList [VStr ''java''])]"
  by (simp add: eval_defs)

lemma jobNo_set_fields: "jobNo j = Some i \<Longrightarrow> jobNo (set_fields doc j) = Some i"
  by (simp add: set_fields_def or_else_def)

lemma update_one_distinct:
  "distinct (map jobNo db) \<Longrightarrow>
   update_one i j db = map (\<lambda>doc. if jobNo doc = Some i then set_fields doc j else doc) db"
proof (induction db)
  case Nil
  then show ?case by simp
next
  case (Cons doc db)
  show ?case
  proof (cases "jobNo doc = Some i")
    case True
    then have "\<forall>d\<in>set db. jobNo d \<noteq> Some i" using Cons.prems by force
    then have "map (\<lambda>doc. if jobNo doc = Some i then set_fields doc j else doc) db = db"
      by (simp add: map_idI)
    then show ?thesis using True by simp
  next
    case False
    then show ?thesis using Cons by simp
  qed
qed

lemma upsert_one_facts:
  assumes d: "distinct (map jobNo db)" and id: "jobNo j = Some i"
  shows "distinct (map jobNo (upsert_one today i j db))"
    and "length db \<le> length (upsert_one today i j db)"
    and "\<forall>k<length db. upsert_one today i j db ! k =
           (if jobNo (db ! k) = Some i then set_fields (db ! k) j else db ! k)"
proof -
  let ?f = "\<lambda>doc. if jobNo doc = Some i then set_fields doc j else doc"
  have jf: "\<And>doc. jobNo (?f doc) = jobNo doc" using id by (simp add: jobNo_set_fields)
  show "distinct (map jobNo (upsert_one today i j db))"
  proof (cases "\<exists>doc\<in>set db. jobNo doc = Some i")
    case True
    then have "upsert_one today i j db = map ?f db"
      using d by (simp add: upsert_one_def update_one_distinct)
    moreover have "map jobNo (map ?f db) = map jobNo db"
      unfolding map_map by (rule map_cong) (simp_all add: jf)
    ultimately show ?thesis using d by metis
  next
    case False
    then have u: "upsert_one today i j db =
        db @ [(set_fields (empty_job\<lparr>jobNo := Some i\<rparr>) j)\<lparr>discovery_date := Some today\<rparr>]"
      by (simp add: upsert_one_def)
    have "Some i \<notin> set (map jobNo db)" using False by auto
    then show ?thesis unfolding u using d id by (simp add: jobNo_set_fields)
  qed
  show "length db \<le> length (upsert_one today i j db)"
    using d by (simp add: upsert_one_def update_one_distinct)
  show "\<forall>k<length db. upsert_one today i j db ! k = ?f (db ! k)"
  proof (cases "\<exists>doc\<in>set db. jobNo doc = Some i")
    case True
    then show ?thesis using d by (simp add: upsert_one_def update_one_distinct)
  next
    case False
    then have "\<forall>k<length db. jobNo (db ! k) \<noteq> Some i" by auto
    then show ?thesis using False by (simp add: upsert_one_def nth_append)
  qed
qed

lemma bulk_write_result:
  assumes "\<forall>p\<in>set ops. jobNo (snd p) = Some (fst p) \<and> discovery_date (snd p) = None"
    and "distinct (map fst ops)" and "distinct (map jobNo db)"
  shows "fst (bulk_write today ops db) = None \<and>
         length db \<le> length (snd (bulk_write today ops db)) \<and>
         (\<forall>k<length db. snd (bulk_write today ops db) ! k = updated_by ops (db ! k))"
  using assms
proof (induction ops arbitrary: db)
  case Nil
  then show ?case by (simp add: updated_by_def split: option.splits)
next
  case (Cons p ops)
  obtain i j where p: "p = (i, j)" by (cases p)
  have id: "jobNo j = Some i" and dd: "discovery_date j = None" using Cons.prems(1) p by auto
  let ?db1 = "upsert_one today i j db"
  note u = upsert_one_facts[OF Cons.prems(3) id, of today]
  have ih: "fst (bulk_write today ops ?db1) = None \<and>
         length ?db1 \<le> length (snd (bulk_write today ops ?db1)) \<and>
         (\<forall>k<length ?db1. snd (bulk_write today ops ?db1) ! k = updated_by ops (?db1 ! k))"
    using Cons.IH[OF _ _ u(1)] Cons.prems by simp
  have bw: "bulk_write today (p # ops) db = bulk_write today ops ?db1"
    using p dd by simp
  have none: "map_of ops i = None"
    using Cons.prems(2) p by (simp add: map_of_eq_None_iff)
  have "\<forall>k<length db. snd (bulk_write today ops ?db1) ! k = updated_by (p # ops) (db ! k)"
  proof (intro allI impI)
    fix k assume k: "k < length db"
    then have k1: "k < length ?db1" using u(2) by simp
    have r: "snd (bulk_write today ops ?db1) ! k = updated_by ops (?db1 ! k)" using ih k1 by simp
    have s: "?db1 ! k = (if jobNo (db ! k) = Some i then set_fields (db ! k) j else db ! k)"
      using u(3) k by simp
    show "snd (bulk_write today ops ?db1) ! k = updated_by (p # ops) (db ! k)"
    proof (cases "jobNo (db ! k) = Some i")
      case True
      then show ?thesis
        using r s none id p by (simp add: updated_by_def jobNo_set_fields)
    next
      case False
      then show ?thesis
        using r s p by (simp add: updated_by_def split: option.splits)
    qed
  qed
  then show ?case using bw ih u(2) by simp
qed

lemma operations_of_ok:
  "\<forall>j\<in>set jobs. jobNo j \<noteq> None \<Longrightarrow>
   operations_of jobs = Inr (map (\<lambda>j. (the (jobNo j), j)) jobs)"
  by (induction jobs) auto

text \<open>
  The two other lifecycle operations keep the coupling of \<open>status\<close> and
  \<open>delisted_date\<close>.
\<close>

lemma update_job_status_coupled:
  "list_all status_delisted_coupled db \<Longrightarrow>
   list_all status_delisted_coupled (snd (update_job_status today ids db))"
  by (auto simp: update_job_status_def list_all_iff status_delisted_coupled_def set_delisted_def)

lemma reactivate_jobs_coupled:
  "list_all status_delisted_coupled db \<Longrightarrow>
   list_all status_delisted_coupled (snd (reactivate_jobs today ids db))"
  by (auto simp: reactivate_jobs_def list_all_iff status_delisted_coupled_def set_reactivated_def)

text \<open>
  Claim C2 at a failing input. The collection holds one listing, inactive with a
  \<open>delisted_date\<close>, so the coupling of \<open>status\<close> and \<open>delisted_date\<close>
  holds. The listing reappears in a run; after \<open>process_jobs\<close> and
  \<open>save_jobs\<close> the stored document is active and still has its
  \<open>delisted_date\<close>: \<open>$set\<close> removes no key, and the removal of the key by
  \<open>_process_job_status\<close> acts on the dictionary of the run only.
\<close>

theorem save_keeps_delisted_date_of_reactivated_listing:
  "list_all status_delisted_coupled [stored_job ''A1'' ''inactive'' (Some ''2024-01-01'') ''python''] \<and>
   fst (crawl_reconcile_and_save ''2024-06-01T08:00'' ''2024-06-01''
       [raw_job ''A1'' ''Engineer'' ''python'']
       [stored_job ''A1'' ''inactive'' (Some ''2024-01-01'') ''python'']) = None \<and>
   map status (snd (crawl_reconcile_and_save ''2024-06-01T08:00'' ''2024-06-01''
       [raw_job ''A1'' ''Engineer'' ''python'']
       [stored_job ''A1'' ''inactive'' (Some ''2024-01-01'') ''python''])) = [Some ''active''] \<and>
   map delisted_date (snd (crawl_reconcile_and_save ''2024-06-01T08:00'' ''2024-06-01''
       [raw_job ''A1'' ''Engineer'' ''python'']
       [stored_job ''A1'' ''inactive'' (Some ''2024-01-01'') ''python''])) = [Some ''2024-01-01''] \<and>
   \<not> list_all status_delisted_coupled (snd (crawl_reconcile_and_save ''2024-06-01T08:00'' ''2024-06-01''
       [raw_job ''A1'' ''Engineer'' ''python'']
       [stored_job ''A1'' ''inactive'' (Some ''2024-01-01'') ''python'']))"
  by (simp add: eval_defs status_delisted_coupled_def)

text \<open>
  Claim C4, amended. For a listing whose stored status is inactive and that is in the
  batch of the run, \<open>_process_job_status\<close> sets the record of the run to active,
  removes its \<open>delisted_date\<close> and sets \<open>last_update_date\<close> to today;
  \<open>reactivate_jobs\<close> does the same to the stored document. Neither touches
  \<open>search_keyword\<close>: the record of the run keeps the keywords of this run, the
  stored document keeps the stored ones, and nothing unites them.
\<close>

theorem reappearing_inactive_listing_is_reactivated:
  assumes "job_id \<noteq> []"
  shows "(existing_jobs job_id = Some ''inactive'' \<longrightarrow>
           (\<forall>k<length jobs. jobNo (jobs ! k) = Some job_id \<longrightarrow>
              reactivated today (jobs ! k) (process_job_status today jobs existing_jobs ! k) \<and>
              search_keyword (process_job_status today jobs existing_jobs ! k) =
                search_keyword (jobs ! k))) \<and>
         (job_id \<in> set job_ids \<longrightarrow>
           (\<forall>k<length db. jobNo (db ! k) = Some job_id \<and> status (db ! k) = Some ''inactive'' \<longrightarrow>
              reactivated today (db ! k) (snd (reactivate_jobs today job_ids db) ! k) \<and>
              search_keyword (snd (reactivate_jobs today job_ids db) ! k) =
                search_keyword (db ! k)))"
proof (intro conjI impI allI)
  fix k
  assume e: "existing_jobs job_id = Some ''inactive''" and k: "k < length jobs"
    and id: "jobNo (jobs ! k) = Some job_id"
  have ne: "existing_jobs \<noteq> Map.empty" using e by auto
  have "jobs \<noteq> []" using k by auto
  then have p: "process_job_status today jobs existing_jobs ! k =
      job_status_step today existing_jobs (jobs ! k)"
    using ne k by (simp add: process_job_status_def)
  show "reactivated today (jobs ! k) (process_job_status today jobs existing_jobs ! k)"
    unfolding p using e id assms
    by (simp add: job_status_step_def reactivated_def JOB_STATUS_INACTIVE_def
        JOB_STATUS_ACTIVE_def Let_def)
  show "search_keyword (process_job_status today jobs existing_jobs ! k) = search_keyword (jobs ! k)"
    unfolding p using e id assms
    by (simp add: job_status_step_def JOB_STATUS_INACTIVE_def JOB_STATUS_ACTIVE_def Let_def)
next
  fix k
  assume m: "job_id \<in> set job_ids" and k: "k < length db"
    and d: "jobNo (db ! k) = Some job_id \<and> status (db ! k) = Some ''inactive''"
  have "job_ids \<noteq> []" using m by auto
  then have r: "snd (reactivate_jobs today job_ids db) ! k = set_reactivated today (db ! k)"
    using k d m by (simp add: reactivate_jobs_def jobNo_in_def)
  show "reactivated today (db ! k) (snd (reactivate_jobs today job_ids db) ! k)"
    unfolding r by (simp add: reactivated_def set_reactivated_def)
  show "search_keyword (snd (reactivate_jobs today job_ids db) ! k) = search_keyword (db ! k)"
    unfolding r by (simp add: set_reactivated_def)
qed

lemma process_job_status_keywords:
  "map search_keyword (process_job_status today jobs existing_jobs) = map search_keyword jobs"
  by (auto simp: process_job_status_def job_status_step_def Let_def split: option.splits)

lemma distinct_operation_keys:
  "\<forall>j\<in>set jobs. jobNo j \<noteq> None \<Longrightarrow> distinct (map jobNo jobs) \<Longrightarrow>
   distinct (map (\<lambda>j. the (jobNo j)) jobs)"
proof (induction jobs)
  case Nil
  then show ?case by simp
next
  case (Cons j js)
  have "the (jobNo j) \<notin> (\<lambda>j. the (jobNo j)) ` set js"
  proof
    assume "the (jobNo j) \<in> (\<lambda>j. the (jobNo j)) ` set js"
    then obtain j' where j': "j' \<in> set js" "the (jobNo j) = the (jobNo j')" by auto
    from Cons.prems(1) obtain x where x: "jobNo j = Some x" by auto
    from Cons.prems(1) j'(1) obtain y where y: "jobNo j' = Some y" by auto
    from x y j'(2) have "jobNo j = jobNo j'" by simp
    then have "jobNo j \<in> set (map jobNo js)" using j'(1) by auto
    then show False using Cons.prems(2) by simp
  qed
  then show ?case using Cons by simp
qed

lemma stamped_operations:
  "map (\<lambda>j. (the (jobNo j), j)) (map (\<lambda>j. j\<lparr>mongodb_update_time := Some now\<rparr>) jobs) =
   map (\<lambda>j. (the (jobNo j), j\<lparr>mongodb_update_time := Some now\<rparr>)) jobs"
  by (induction jobs) simp_all

lemma insert_jobs_result:
  assumes db: "distinct (map jobNo db)" and jobs: "distinct (map jobNo jobs)"
    and ok: "\<forall>j\<in>set jobs. jobNo j \<noteq> None \<and> discovery_date j = None"
  shows "fst (insert_jobs now today jobs db) = None \<and>
         (\<forall>k<length db. snd (insert_jobs now today jobs db) ! k =
            updated_by (map (\<lambda>j. (the (jobNo j), j\<lparr>mongodb_update_time := Some now\<rparr>)) jobs) (db ! k))"
proof (cases "jobs = []")
  case True
  then show ?thesis by (simp add: insert_jobs_def updated_by_def split: option.splits)
next
  case False
  let ?st = "map (\<lambda>j. j\<lparr>mongodb_update_time := Some now\<rparr>) jobs"
  let ?ops = "map (\<lambda>j. (the (jobNo j), j\<lparr>mongodb_update_time := Some now\<rparr>)) jobs"
  have "operations_of ?st = Inr (map (\<lambda>j. (the (jobNo j), j)) ?st)"
    using ok by (intro operations_of_ok) simp
  then have o: "operations_of ?st = Inr ?ops"
    unfolding stamped_operations .
  have i: "insert_jobs now today jobs db = bulk_write today ?ops db"
    using False o by (simp add: insert_jobs_def)
  have 1: "\<forall>p\<in>set ?ops. jobNo (snd p) = Some (fst p) \<and> discovery_date (snd p) = None"
    using ok by auto
  have "distinct (map (\<lambda>j. the (jobNo j)) jobs)"
    using distinct_operation_keys[OF _ jobs] ok by simp
  then have 2: "distinct (map fst ?ops)" by (simp add: comp_def)
  show ?thesis
    unfolding i using bulk_write_result[OF 1 2 db, of today] by simp
qed

text \<open>
  Claim C5, amended. Marking missing listings inactive, reactivating and the status
  step of the reconciliation never change \<open>search_keyword\<close>. A save (of a batch
  with distinct identifiers into a collection with distinct identifiers) leaves every
  stored listing that is not in the batch as it is, and gives every stored listing that
  is in the batch the \<open>search_keyword\<close> of its batch record, whatever was stored
  before.
\<close>

theorem search_keyword_changes_only_on_save:
  assumes db: "distinct (map jobNo db)" and jobs: "distinct (map jobNo jobs)"
    and ok: "\<forall>j\<in>set jobs. jobNo j \<noteq> None \<and> discovery_date j = None"
  shows "map search_keyword (snd (update_job_status today ids db)) = map search_keyword db \<and>
    map search_keyword (snd (reactivate_jobs today ids db)) = map search_keyword db \<and>
    map search_keyword (process_job_status today jobs existing_jobs) = map search_keyword jobs \<and>
    fst (insert_jobs now today jobs db) = None \<and>
    (\<forall>k<length db.
       ((\<forall>j\<in>set jobs. jobNo j \<noteq> jobNo (db ! k)) \<longrightarrow>
          snd (insert_jobs now today jobs db) ! k = db ! k) \<and>
       (\<forall>j\<in>set jobs. jobNo j = jobNo (db ! k) \<and> search_keyword j \<noteq> None \<longrightarrow>
          search_keyword (snd (insert_jobs now today jobs db) ! k) = search_keyword j))"
proof -
  let ?ops = "map (\<lambda>j. (the (jobNo j), j\<lparr>mongodb_update_time := Some now\<rparr>)) jobs"
  note r = insert_jobs_result[OF db jobs ok, of now today]
  have 1: "map search_keyword (snd (update_job_status today ids db)) = map search_keyword db"
    by (simp add: update_job_status_def set_delisted_def)
  have 2: "map search_keyword (snd (reactivate_jobs today ids db)) = map search_keyword db"
    by (simp add: reactivate_jobs_def set_reactivated_def)
  have "distinct (map (\<lambda>j. the (jobNo j)) jobs)"
    using distinct_operation_keys[OF _ jobs] ok by simp
  then have dk: "distinct (map fst ?ops)" by (simp add: comp_def)
  have 3: "\<forall>k<length db.
       ((\<forall>j\<in>set jobs. jobNo j \<noteq> jobNo (db ! k)) \<longrightarrow>
          snd (insert_jobs now today jobs db) ! k = db ! k) \<and>
       (\<forall>j\<in>set jobs. jobNo j = jobNo (db ! k) \<and> search_keyword j \<noteq> None \<longrightarrow>
          search_keyword (snd (insert_jobs now today jobs db) ! k) = search_keyword j)"
  proof (intro allI impI conjI ballI)
    fix k assume k: "k < length db"
    have rk: "snd (insert_jobs now today jobs db) ! k = updated_by ?ops (db ! k)" using r k by simp
    {
      assume no: "\<forall>j\<in>set jobs. jobNo j \<noteq> jobNo (db ! k)"
      have "updated_by ?ops (db ! k) = db ! k"
      proof (cases "jobNo (db ! k)")
        case None
        then show ?thesis by (simp add: updated_by_def)
      next
        case (Some i)
        have "i \<notin> fst ` set ?ops"
        proof
          assume "i \<in> fst ` set ?ops"
          then obtain j where j: "j \<in> set jobs" "i = the (jobNo j)" by auto
          then have "jobNo j = Some i" using ok by auto
          then show False using no j Some by auto
        qed
        then have "map_of ?ops i = None" by (simp add: map_of_eq_None_iff)
        then show ?thesis using Some by (simp add: updated_by_def)
      qed
      then show "snd (insert_jobs now today jobs db) ! k = db ! k" using rk by simp
    }
    {
      fix j assume j: "j \<in> set jobs"
        and m: "jobNo j = jobNo (db ! k) \<and> search_keyword j \<noteq> None"
      obtain i where i: "jobNo j = Some i" using ok j by auto
      have "(i, j\<lparr>mongodb_update_time := Some now\<rparr>) \<in> set ?ops" using j i by force
      then have "map_of ?ops i = Some (j\<lparr>mongodb_update_time := Some now\<rparr>)"
        using dk by simp
      moreover have "jobNo (db ! k) = Some i" using m i by simp
      ultimately have "updated_by ?ops (db ! k) = set_fields (db ! k) (j\<lparr>mongodb_update_time := Some now\<rparr>)"
        by (simp add: updated_by_def)
      then show "search_keyword (snd (insert_jobs now today jobs db) ! k) = search_keyword j"
        using rk m by (auto simp: set_fields_def or_else_def)
    }
  qed
  from 1 2 3 process_job_status_keywords r show ?thesis by blast
qed

text \<open>
  Claim C7 at a failing input. A batch whose first record has no \<open>jobNo\<close>:
  \<open>Crawler._merge_job_keywords\<close> raises \<open>KeyError\<close>, where
  \<open>JobDataProcessor._merge_job_keywords\<close> drops the record and returns the
  well-formed one.
\<close>

theorem crawler_merge_raises_on_missing_jobNo:
  "crawler_merge_job_keywords
     [empty_job\<lparr>search_keyword := Some (VStr ''python''), other := [''jobName'' \<mapsto> ''Engineer'']\<rparr>,
      raw_job ''A1'' ''Engineer'' ''python''] = Inl KeyError \<and>
   merge_job_keywords
     [empty_job\<lparr>search_keyword := Some (VStr ''python''), other := [''jobName'' \<mapsto> ''Engineer'']\<rparr>,
      raw_job ''A1'' ''Engineer'' ''python''] =
     [(raw_job ''A1'' ''Engineer'' ''python'')\<lparr>search_keyword := Some (VList [VStr ''python''])\<rparr>]"
  by (simp add: crawler_merge_job_keywords_def crawler_merge_step_def merge_job_keywords_def
      merge_step_def first_seen_def raw_job_def empty_job_def)

text \<open>
  The theorem of claim C4 at the listing \<open>A1\<close>, stored as inactive.
\<close>

theorem reappearing_inactive_listing_is_reactivated_witness:
  "''A1'' \<noteq> [] \<and>
   [''A1'' \<mapsto> ''inactive''] ''A1'' = Some ''inactive'' \<and>
   reactivated ''2024-06-01'' (raw_job ''A1'' ''Engineer'' ''java'')
     (process_job_status ''2024-06-01'' [raw_job ''A1'' ''Engineer'' ''java'']
        [''A1'' \<mapsto> ''inactive''] ! 0) \<and>
   reactivated ''2024-06-01'' (stored_job ''A1'' ''inactive'' (Some ''2024-01-01'') ''python'')
     (snd (reactivate_jobs ''2024-06-01'' [''A1'']
        [stored_job ''A1'' ''inactive'' (Some ''2024-01-01'') ''python'']) ! 0) \<and>
   search_keyword (snd (reactivate_jobs ''2024-06-01'' [''A1'']
        [stored_job ''A1'' ''inactive'' (Some ''2024-01-01'') ''python'']) ! 0) =
     Some (VList [VStr ''python''])"
proof -
  let ?jobs = "[raw_job ''A1'' ''Engineer'' ''java'']"
  let ?db = "[stored_job ''A1'' ''inactive'' (Some ''2024-01-01'') ''python'']"
  let ?e = "[''A1'' \<mapsto> ''inactive'']"
  have h: "''A1'' \<noteq> []" by simp
  note t = reappearing_inactive_listing_is_reactivated[OF h, of ?e ?jobs "''2024-06-01''" "[''A1'']" ?db]
  have e: "?e ''A1'' = Some ''inactive''" by simp
  have kj: "(0::nat) < length ?jobs" and kd: "(0::nat) < length ?db" by simp_all
  have ij: "jobNo (?jobs ! 0) = Some ''A1''" by (simp add: raw_job_def)
  have idb: "jobNo (?db ! 0) = Some ''A1'' \<and> status (?db ! 0) = Some ''inactive''"
    by (simp add: stored_job_def)
  have m: "''A1'' \<in> set [''A1'']" by simp
  from t e kj ij have 1: "reactivated ''2024-06-01'' (?jobs ! 0)
      (process_job_status ''2024-06-01'' ?jobs ?e ! 0)" by blast
  from t m kd idb have 2: "reactivated ''2024-06-01'' (?db ! 0)
      (snd (reactivate_jobs ''2024-06-01'' [''A1''] ?db) ! 0) \<and>
      search_keyword (snd (reactivate_jobs ''2024-06-01'' [''A1''] ?db) ! 0) = search_keyword (?db ! 0)"
    by blast
  have 3: "search_keyword (?db ! 0) = Some (VList [VStr ''python''])" by (simp add: stored_job_def)
  from h e 1 2 3 show ?thesis by simp
qed

text \<open>
  The theorem of claim C5 at a collection of two listings and a batch of one.
\<close>

theorem search_keyword_changes_only_on_save_witness:
  "distinct (map jobNo [stored_job ''A1'' ''active'' None ''python'', stored_job ''B2'' ''active'' None ''go'']) \<and>
   distinct (map jobNo [raw_job ''A1'' ''Engineer'' ''java'']) \<and>
   jobNo (raw_job ''A1'' ''Engineer'' ''java'') \<noteq> None \<and>
   discovery_date (raw_job ''A1'' ''Engineer'' ''java'') = None \<and>
   fst (insert_jobs ''2024-06-02T08:00'' ''2024-06-02'' [raw_job ''A1'' ''Engineer'' ''java'']
      [stored_job ''A1'' ''active'' None ''python'', stored_job ''B2'' ''active'' None ''go'']) = None \<and>
   search_keyword (snd (insert_jobs ''2024-06-02T08:00'' ''2024-06-02'' [raw_job ''A1'' ''Engineer'' ''java'']
      [stored_job ''A1'' ''active'' None ''python'', stored_job ''B2'' ''active'' None ''go'']) ! 0) =
     Some (VStr ''java'') \<and>
   snd (insert_jobs ''2024-06-02T08:00'' ''2024-06-02'' [raw_job ''A1'' ''Engineer'' ''java'']
      [stored_job ''A1'' ''active'' None ''python'', stored_job ''B2'' ''active'' None ''go'']) ! 1 =
     stored_job ''B2'' ''active'' None ''go''"
proof -
  let ?db = "[stored_job ''A1'' ''active'' None ''python'', stored_job ''B2'' ''active'' None ''go'']"
  let ?jobs = "[raw_job ''A1'' ''Engineer'' ''java'']"
  have d1: "distinct (map jobNo ?db)" by (simp add: stored_job_def)
  have d2: "distinct (map jobNo ?jobs)" by simp
  have ok: "\<forall>j\<in>set ?jobs. jobNo j \<noteq> None \<and> discovery_date j = None"
    by (simp add: raw_job_def empty_job_def)
  note t = search_keyword_changes_only_on_save[OF d1 d2 ok,
      of "''2024-06-02''" "[]" Map.empty "''2024-06-02T08:00''"]
  have k0: "(0::nat) < length ?db" and k1: "(1::nat) < length ?db" by simp_all
  have a: "\<forall>j\<in>set ?jobs. jobNo j \<noteq> jobNo (?db ! 1)"
    by (simp add: raw_job_def stored_job_def)
  have b: "raw_job ''A1'' ''Engineer'' ''java'' \<in> set ?jobs \<and>
      jobNo (raw_job ''A1'' ''Engineer'' ''java'') = jobNo (?db ! 0) \<and>
      search_keyword (raw_job ''A1'' ''Engineer'' ''java'') \<noteq> None"
    by (simp add: raw_job_def stored_job_def)
  from t k1 a have 1: "snd (insert_jobs ''2024-06-02T08:00'' ''2024-06-02'' ?jobs ?db) ! 1 = ?db ! 1"
    by blast
  from t k0 b have 2: "search_keyword (snd (insert_jobs ''2024-06-02T08:00'' ''2024-06-02'' ?jobs ?db) ! 0) =
      search_keyword (raw_job ''A1'' ''Engineer'' ''java'')"
    by blast
  from t have 3: "fst (insert_jobs ''2024-06-02T08:00'' ''2024-06-02'' ?jobs ?db) = None" by blast
  have 4: "search_keyword (raw_job ''A1'' ''Engineer'' ''java'') = Some (VStr ''java'')"
    by (simp add: raw_job_def)
  from d1 d2 ok 1 2 3 4 show ?thesis by simp
qed

section \<open>Idempotence of the reconciliation\<close>

























section \<open>Properties of the address split\<close>

lemma line_Nil: "line [] = []"
  by (simp add: line_def)

lemma line_single: "line [c] = (if c = newline then [] else [c])"
  by (simp add: line_def)

lemma line_Cons: "cs \<noteq> [] \<Longrightarrow> line (c # cs) = c # line cs"
  by (simp add: line_def)

lemma at_end_iff: "at_end cs = (line cs = [])"
proof (cases cs)
  case Nil
  then show ?thesis by (simp add: at_end_def line_def)
next
  case (Cons a as)
  show ?thesis
  proof (cases as)
    case Nil
    then show ?thesis using Cons by (auto simp: at_end_def line_def)
  next
    case (Cons b bs)
    then show ?thesis using \<open>cs = a # as\<close> by (auto simp: at_end_def line_def)
  qed
qed

lemma at_end_cases: "at_end cs \<Longrightarrow> line (c # cs) = (if c = newline \<and> cs = [] then [] else [c])"
  by (auto simp: at_end_def line_def)

lemma not_at_end_Cons: "\<not> at_end cs \<Longrightarrow> line (c # cs) = c # line cs \<and> line cs \<noteq> []"
  using at_end_iff[of cs] by (cases cs) (auto simp: line_Cons at_end_def)

lemma lazy_group_to_end:
  assumes cls: "\<not> cls newline"
  shows "lazy_group cls (\<lambda>g r. if at_end r then Some (f g) else None) grp s =
     (if newline \<notin> set (line s) \<and> ends_with cls (line s) then Some (f (grp @ line s)) else None)"
proof (induction s arbitrary: grp)
  case Nil
  then show ?case by (simp add: line_Nil ends_with_def)
next
  case (Cons c cs)
  show ?case
  proof (cases "c = newline")
    case True
    then have "\<not> cls c" using cls by simp
    moreover have "\<not> (newline \<notin> set (line (c # cs)) \<and> ends_with cls (line (c # cs)))"
    proof (cases "cs = []")
      case True
      then show ?thesis using \<open>c = newline\<close> by (simp add: line_single ends_with_def)
    next
      case False
      then show ?thesis using \<open>c = newline\<close> by (simp add: line_Cons)
    qed
    ultimately show ?thesis using True by simp
  next
    case nl: False
    show ?thesis
    proof (cases "at_end cs")
      case True
      then have l: "line (c # cs) = [c]" using nl by (simp add: at_end_cases)
      have lc: "line cs = []" using True by (simp add: at_end_iff)
      show ?thesis
        using True nl l lc Cons.IH[of "grp @ [c]"] by (simp add: ends_with_def)
    next
      case False
      then have l: "line (c # cs) = c # line cs" "line cs \<noteq> []"
        using not_at_end_Cons by auto
      show ?thesis
        using False nl l Cons.IH[of "grp @ [c]"] by (simp add: ends_with_def)
    qed
  qed
qed

lemma city_not_newline: "\<not> city_suffix newline"
  by (simp add: city_suffix_def newline_def)

lemma district_not_newline: "\<not> district_suffix newline"
  by (simp add: district_suffix_def newline_def)

lemma city_pattern_eq:
  "city_pattern s = (if city_only s then Some (line s) else None)"
  unfolding city_pattern_def city_only_def
  using lazy_group_to_end[where cls = city_suffix and f = "\<lambda>g. g" and grp = "[]" and s = s,
      OF city_not_newline] by simp

lemma inner_eq:
  "lazy_group district_suffix (\<lambda>g2 rest'. if at_end rest' then Some (g1, g2) else None) [] rest =
     (if district_to_end rest then Some (g1, line rest) else None)"
  unfolding district_to_end_def
  using lazy_group_to_end[where cls = district_suffix and f = "\<lambda>g. (g1, g)" and grp = "[]"
      and s = rest, OF district_not_newline] by simp

lemma city_then_district_imp: "city_then_district s \<Longrightarrow> district_to_end s"
  by (simp add: city_then_district_def district_to_end_def)

lemma outer_eq:
  "lazy_group city_suffix (\<lambda>g1 rest. if district_to_end rest then Some (g1, line rest) else None) grp s =
     (if city_then_district s then Some (grp @ city_part (line s), district_part (line s)) else None)"
proof (induction s arbitrary: grp)
  case Nil
  then show ?case by (simp add: city_then_district_def line_Nil)
next
  case (Cons c cs)
  show ?case
  proof (cases "c = newline")
    case True
    have "\<not> city_then_district (c # cs)"
    proof (cases "cs = []")
      case True
      then show ?thesis using \<open>c = newline\<close> by (simp add: city_then_district_def line_single)
    next
      case False
      then show ?thesis using \<open>c = newline\<close> by (simp add: city_then_district_def line_Cons)
    qed
    then show ?thesis using True city_not_newline by simp
  next
    case nl: False
    show ?thesis
    proof (cases "at_end cs")
      case True
      then have l: "line (c # cs) = [c]" using nl by (simp add: at_end_cases)
      have lc: "line cs = []" using True by (simp add: at_end_iff)
      have 1: "\<not> city_then_district (c # cs)" using l by (simp add: city_then_district_def)
      have 2: "\<not> city_then_district cs" using lc by (simp add: city_then_district_def)
      have 3: "\<not> district_to_end cs" using lc by (simp add: district_to_end_def ends_with_def)
      show ?thesis using 1 2 3 nl Cons.IH[of "grp @ [c]"] by simp
    next
      case False
      then have l: "line (c # cs) = c # line cs" "line cs \<noteq> []"
        using not_at_end_Cons by auto
      show ?thesis
      proof (cases "city_suffix c")
        case city: True
        show ?thesis
        proof (cases "district_to_end cs")
          case True
          have "city_then_district (c # cs)"
            using True l nl city by (simp add: city_then_district_def district_to_end_def ends_with_def)
          moreover have "city_part (line (c # cs)) = [c]" using l city by (simp add: city_part_def)
          moreover have "district_part (line (c # cs)) = line cs"
            using l city by (simp add: district_part_def)
          ultimately show ?thesis using True city by simp
        next
          case nd: False
          then have 2: "\<not> city_then_district cs" using city_then_district_imp by blast
          have 1: "\<not> city_then_district (c # cs)"
            using nd l nl by (auto simp: city_then_district_def district_to_end_def ends_with_def)
          show ?thesis using 1 2 nd nl city Cons.IH[of "grp @ [c]"] by simp
        qed
      next
        case nc: False
        have e: "city_then_district (c # cs) = city_then_district cs"
          using l nl nc by (auto simp: city_then_district_def ends_with_def)
        have "city_part (line (c # cs)) = c # city_part (line cs)"
          using l nc by (simp add: city_part_def)
        moreover have "district_part (line (c # cs)) = district_part (line cs)"
          using l nc by (simp add: district_part_def)
        ultimately show ?thesis using e nl nc Cons.IH[of "grp @ [c]"] by simp
      qed
    qed
  qed
qed

lemma city_district_pattern_eq:
  "city_district_pattern s =
     (if city_then_district s then Some (city_part (line s), district_part (line s)) else None)"
  unfolding city_district_pattern_def inner_eq
  using outer_eq[of "[]" s] by simp

lemma parts_of_city_then_district:
  assumes "city_then_district s"
  shows "line s = city_part (line s) @ district_part (line s)"
    and "ends_with city_suffix (city_part (line s))"
    and "\<forall>x\<in>set (butlast (city_part (line s))). \<not> city_suffix x"
    and "ends_with district_suffix (district_part (line s))"
proof -
  let ?t = "line s"
  let ?P = "\<lambda>x. \<not> city_suffix x"
  from assms have ex: "\<exists>c\<in>set (butlast ?t). city_suffix c" and e: "ends_with district_suffix ?t"
    by (simp_all add: city_then_district_def)
  from e have tne: "?t \<noteq> []" by (simp add: ends_with_def)
  then have t: "?t = butlast ?t @ [last ?t]" by simp
  from ex obtain x where x: "x \<in> set (butlast ?t)" "city_suffix x" by blast
  have "dropWhile ?P (butlast ?t @ [last ?t]) = dropWhile ?P (butlast ?t) @ [last ?t]"
    using x by (intro dropWhile_append1[of x]) simp_all
  then have dw: "dropWhile ?P ?t = dropWhile ?P (butlast ?t) @ [last ?t]" using t by simp
  have ne: "dropWhile ?P (butlast ?t) \<noteq> []" using ex by (simp add: dropWhile_eq_Nil_conv)
  then obtain h r where hr: "dropWhile ?P (butlast ?t) = h # r" by (cases "dropWhile ?P (butlast ?t)") auto
  have dwt: "dropWhile ?P ?t = h # (r @ [last ?t])" using dw hr by simp
  have "city_suffix (hd (dropWhile ?P ?t))"
    using hd_dropWhile[of ?P ?t] dwt by simp
  then have ch: "city_suffix h" using dwt by simp
  have "?t = takeWhile ?P ?t @ dropWhile ?P ?t" by simp
  then show "line s = city_part (line s) @ district_part (line s)"
    unfolding city_part_def district_part_def dwt by simp
  show "ends_with city_suffix (city_part (line s))"
    unfolding city_part_def dwt using ch by (simp add: ends_with_def)
  show "\<forall>x\<in>set (butlast (city_part (line s))). \<not> city_suffix x"
    unfolding city_part_def using set_takeWhileD[of _ ?P ?t] by auto
  show "ends_with district_suffix (district_part (line s))"
    unfolding district_part_def dwt using e by (simp add: ends_with_def)
qed

text \<open>
  Claim C9. \<open>split_city_district\<close> is a total function on strings, and its result
  is decided by three cases. When the address (without the newline that may end it,
  and free of other newlines) has a city suffix before its last character and ends in
  a district suffix, the result is the city, which ends at the first city suffix, and
  the district, which is the rest. Otherwise, when the address ends in a city suffix,
  the result is the city and the empty string. Otherwise the result is the empty
  string and the address itself, unchanged. The two addresses of the specification
  give the results it names.
\<close>

theorem split_city_district_cases:
  "split_city_district xinzhu_east = ([0x65B0, 0x7AF9, 0x5E02], [0x6771, 0x5340]) \<and>
   split_city_district unknown_address = ([], unknown_address) \<and>
   (city_then_district address \<longrightarrow>
      (\<exists>c d. split_city_district address = (c, d) \<and> line address = c @ d \<and>
             ends_with city_suffix c \<and> (\<forall>x\<in>set (butlast c). \<not> city_suffix x) \<and>
             ends_with district_suffix d)) \<and>
   (\<not> city_then_district address \<and> city_only address \<longrightarrow>
      split_city_district address = (line address, [])) \<and>
   (\<not> city_then_district address \<and> \<not> city_only address \<longrightarrow>
      split_city_district address = ([], address))"
proof -
  have 1: "split_city_district xinzhu_east = ([0x65B0, 0x7AF9, 0x5E02], [0x6771, 0x5340])"
    by (simp add: split_city_district_def city_district_pattern_def city_suffix_def
        district_suffix_def at_end_def newline_def xinzhu_east_def)
  have 2: "split_city_district unknown_address = ([], unknown_address)"
    by (simp add: split_city_district_def city_district_pattern_def city_pattern_def
        city_suffix_def district_suffix_def at_end_def newline_def unknown_address_def)
  have 3: "city_then_district address \<longrightarrow>
      (\<exists>c d. split_city_district address = (c, d) \<and> line address = c @ d \<and>
             ends_with city_suffix c \<and> (\<forall>x\<in>set (butlast c). \<not> city_suffix x) \<and>
             ends_with district_suffix d)"
  proof
    assume a: "city_then_district address"
    have "split_city_district address = (city_part (line address), district_part (line address))"
      using a by (simp add: split_city_district_def city_district_pattern_eq)
    then show "\<exists>c d. split_city_district address = (c, d) \<and> line address = c @ d \<and>
             ends_with city_suffix c \<and> (\<forall>x\<in>set (butlast c). \<not> city_suffix x) \<and>
             ends_with district_suffix d"
      using parts_of_city_then_district[OF a] by blast
  qed
  have 4: "\<not> city_then_district address \<and> city_only address \<longrightarrow>
      split_city_district address = (line address, [])"
    by (simp add: split_city_district_def city_district_pattern_eq city_pattern_eq)
  have 5: "\<not> city_then_district address \<and> \<not> city_only address \<longrightarrow>
      split_city_district address = ([], address)"
    by (simp add: split_city_district_def city_district_pattern_eq city_pattern_eq)
  from 1 2 3 4 5 show ?thesis by blast
qed

text \<open>
  The theorem of claim C9 at an address that is a city only, and at an address made of
  a city and a district.
\<close>

theorem split_city_district_cases_witness:
  "\<not> city_then_district taipei_city \<and> city_only taipei_city \<and>
   split_city_district taipei_city = (taipei_city, []) \<and>
   city_then_district xinzhu_east \<and>
   (\<exists>c d. split_city_district xinzhu_east = (c, d) \<and> line xinzhu_east = c @ d)"
proof -
  have a: "\<not> city_then_district taipei_city \<and> city_only taipei_city"
    by (simp add: city_then_district_def city_only_def line_def ends_with_def city_suffix_def
        district_suffix_def newline_def taipei_city_def)
  have l: "line taipei_city = taipei_city" by (simp add: line_def taipei_city_def newline_def)
  have b: "city_then_district xinzhu_east"
    by (simp add: city_then_district_def line_def ends_with_def city_suffix_def
        district_suffix_def newline_def xinzhu_east_def)
  from split_city_district_cases[of taipei_city] a l
  have 1: "split_city_district taipei_city = (taipei_city, [])" by simp
  from split_city_district_cases[of xinzhu_east] b
  have 2: "\<exists>c d. split_city_district xinzhu_east = (c, d) \<and> line xinzhu_east = c @ d" by blast
  from a 1 b 2 show ?thesis by blast
qed

section \<open>Properties of the retrying transport\<close>

lemma request_loop_exhausted:
  "\<not> retries < max_retries a \<Longrightarrow> request_loop sync a server retries sent = ([], Inl MaxRetriesReached)"
  by (subst request_loop.simps) simp

lemma request_loop_429:
  assumes "retries < max_retries a" and "server sent = Response 429 ra"
    and "retry_after_slept sync ra w"
  shows "request_loop sync a server retries sent =
     prepend (backoff_events retries @ [Request, Wait w])
       (request_loop sync a server (retries + 1) (sent + 1))"
  using assms by (subst request_loop.simps) (auto simp add: Let_def retry_after_slept_def)

lemma request_loop_429_rejected:
  assumes "retries < max_retries a" and "server sent = Response 429 ra"
    and "retry_after_rejected sync ra"
  shows "request_loop sync a server retries sent =
     (if retries + 1 < max_retries a
      then prepend (backoff_events retries @ [Request])
             (request_loop sync a server (retries + 1) (sent + 1))
      else (backoff_events retries @ [Request], Inl UnexpectedFailure))"
  using assms
  by (subst request_loop.simps)
    (auto simp add: Let_def retry_after_rejected_def split: option.splits)

lemma retry_after_cases:
  "(\<exists>w. retry_after_slept sync ra w) \<or> retry_after_rejected sync ra"
  by (cases "wait_time ra") (auto simp: retry_after_slept_def retry_after_rejected_def)

lemma request_loop_success:
  assumes "retries < max_retries a" and "server sent = Response st ra" and "is_success st"
  shows "request_loop sync a server retries sent = (backoff_events retries @ [Request], Inr st)"
proof -
  have "st \<noteq> 403" "st \<noteq> 429" using assms(3) by (auto simp: is_success_def)
  then show ?thesis using assms by (subst request_loop.simps) (simp add: Let_def)
qed

lemma request_loop_head:
  assumes "retries < max_retries a"
  shows "\<exists>tr res. request_loop sync a server retries sent = (backoff_events retries @ Request # tr, res)"
proof -
  have c: "\<And>f. \<exists>tr res.
      (if retries + 1 < max_retries a
       then prepend (backoff_events retries @ [Request]) (request_loop sync a server (retries + 1) (sent + 1))
       else (backoff_events retries @ [Request], Inl f)) = (backoff_events retries @ Request # tr, res)"
    by (simp add: prepend_def)
  show ?thesis
  proof (cases "server sent")
    case (Response st ra)
    show ?thesis
    proof (cases "st = 403")
      case True
      then show ?thesis
        using assms Response by (subst request_loop.simps) (simp add: Let_def prepend_def)
    next
      case n403: False
      show ?thesis
      proof (cases "st = 429")
        case True
        from retry_after_cases[of sync ra] show ?thesis
        proof
          assume "\<exists>w. retry_after_slept sync ra w"
          then obtain w where w: "retry_after_slept sync ra w" by blast
          show ?thesis
            using request_loop_429[where server = server and sent = sent and ra = ra and w = w
                and sync = sync, OF assms] Response True w
            by (simp add: prepend_def)
        next
          assume r: "retry_after_rejected sync ra"
          show ?thesis
            using request_loop_429_rejected[where server = server and sent = sent and ra = ra
                and sync = sync, OF assms] Response True r c[of UnexpectedFailure]
            by simp
        qed
      next
        case n429: False
        show ?thesis
        proof (cases "is_success st")
          case True
          then show ?thesis
            using request_loop_success[where server = server and sent = sent and sync = sync,
                OF assms Response True] by simp
        next
          case False
          then show ?thesis
            using assms Response n403 n429 c[of HttpStatusFailure]
            by (subst request_loop.simps) (simp add: Let_def)
        qed
      qed
    qed
  next
    case RequestError
    then show ?thesis
      using assms c[of RequestFailure] by (subst request_loop.simps) (simp add: Let_def)
  next
    case OtherError
    then show ?thesis
      using assms c[of UnexpectedFailure] by (subst request_loop.simps) (simp add: Let_def)
  qed
qed

text \<open>
  Claim C8, amended. A response with status 429 is handled in one of two ways, and every
  such response falls under one of them. When \<open>Retry-After\<close> reads as a number
  (60 when the header is absent) and the sleep accepts it (any number in the asynchronous
  method, a number from 0 to 9223372036 in the synchronous one), the transport sleeps that
  many seconds and counts the attempt as a retry: when a retry is left, the next request
  comes after that sleep and after the jittered delay of the loop for the new retry number
  as well, so the two waits add up; when the 429 answered the last attempt allowed, the
  transport sleeps and then gives up without another request. When \<open>Retry-After\<close>
  does not read as a number (an HTTP date), or the synchronous sleep rejects the number,
  the time of \<open>Retry-After\<close> is not slept at all and the exception is handled as an
  unexpected error: when a retry is left, the next request comes after the jittered delay
  of the loop alone; on the last attempt allowed the call fails with that error.
\<close>

theorem too_many_requests_wait_then_backoff:
  assumes "retries < max_retries a" and "server sent = Response 429 ra"
  shows "wait_time Absent = Some 60 \<and>
    ((\<exists>w. retry_after_slept sync ra w) \<or> retry_after_rejected sync ra) \<and>
    (retry_after_slept sync ra w \<longrightarrow>
       (retries + 1 < max_retries a \<longrightarrow>
          (\<exists>tr res. request_loop sync a server retries sent =
             (backoff_events retries @ [Request, Wait w, Backoff (retries + 1), Request] @ tr, res))) \<and>
       (retries + 1 = max_retries a \<longrightarrow>
          request_loop sync a server retries sent =
             (backoff_events retries @ [Request, Wait w], Inl MaxRetriesReached))) \<and>
    (retry_after_rejected sync ra \<longrightarrow>
       (retries + 1 < max_retries a \<longrightarrow>
          (\<exists>tr res. request_loop sync a server retries sent =
             (backoff_events retries @ [Request, Backoff (retries + 1), Request] @ tr, res))) \<and>
       (retries + 1 = max_retries a \<longrightarrow>
          request_loop sync a server retries sent =
             (backoff_events retries @ [Request], Inl UnexpectedFailure)))"
proof -
  have next_head: "retries + 1 < max_retries a \<Longrightarrow>
      \<exists>tr res. request_loop sync a server (retries + 1) (sent + 1) =
        (Backoff (retries + 1) # Request # tr, res)"
    using request_loop_head[of "retries + 1" a sync server "sent + 1"]
    by (simp add: backoff_events_def)
  have 1: "retry_after_slept sync ra w \<longrightarrow>
       (retries + 1 < max_retries a \<longrightarrow>
          (\<exists>tr res. request_loop sync a server retries sent =
             (backoff_events retries @ [Request, Wait w, Backoff (retries + 1), Request] @ tr, res))) \<and>
       (retries + 1 = max_retries a \<longrightarrow>
          request_loop sync a server retries sent =
             (backoff_events retries @ [Request, Wait w], Inl MaxRetriesReached))"
  proof (intro impI conjI)
    assume sl: "retry_after_slept sync ra w"
    note s = request_loop_429[where server = server and sent = sent, OF assms sl]
    {
      assume m: "retries + 1 < max_retries a"
      from next_head[OF m] obtain tr res where
        "request_loop sync a server (retries + 1) (sent + 1) = (Backoff (retries + 1) # Request # tr, res)"
        by blast
      then have "request_loop sync a server retries sent =
          (backoff_events retries @ [Request, Wait w, Backoff (retries + 1), Request] @ tr, res)"
        using s by (simp add: prepend_def)
      then show "\<exists>tr res. request_loop sync a server retries sent =
          (backoff_events retries @ [Request, Wait w, Backoff (retries + 1), Request] @ tr, res)"
        by blast
    }
    {
      assume "retries + 1 = max_retries a"
      then have "\<not> retries + 1 < max_retries a" by simp
      then show "request_loop sync a server retries sent =
          (backoff_events retries @ [Request, Wait w], Inl MaxRetriesReached)"
        using s request_loop_exhausted[of "retries + 1" a sync server "sent + 1"]
        by (simp add: prepend_def)
    }
  qed
  have 2: "retry_after_rejected sync ra \<longrightarrow>
       (retries + 1 < max_retries a \<longrightarrow>
          (\<exists>tr res. request_loop sync a server retries sent =
             (backoff_events retries @ [Request, Backoff (retries + 1), Request] @ tr, res))) \<and>
       (retries + 1 = max_retries a \<longrightarrow>
          request_loop sync a server retries sent =
             (backoff_events retries @ [Request], Inl UnexpectedFailure))"
  proof (intro impI conjI)
    assume rj: "retry_after_rejected sync ra"
    note s = request_loop_429_rejected[where server = server and sent = sent, OF assms rj]
    {
      assume m: "retries + 1 < max_retries a"
      from next_head[OF m] obtain tr res where
        "request_loop sync a server (retries + 1) (sent + 1) = (Backoff (retries + 1) # Request # tr, res)"
        by blast
      then have "request_loop sync a server retries sent =
          (backoff_events retries @ [Request, Backoff (retries + 1), Request] @ tr, res)"
        using s m by (simp add: prepend_def)
      then show "\<exists>tr res. request_loop sync a server retries sent =
          (backoff_events retries @ [Request, Backoff (retries + 1), Request] @ tr, res)"
        by blast
    }
    {
      assume "retries + 1 = max_retries a"
      then show "request_loop sync a server retries sent =
          (backoff_events retries @ [Request], Inl UnexpectedFailure)"
        using s by simp
    }
  qed
  from 1 2 retry_after_cases[of sync ra] show ?thesis by simp
qed

text \<open>
  Claim C8 as stated fails. The first request is answered with 429 and
  \<open>Retry-After: 10\<close>, the second with 200: between the two requests the transport
  sleeps 10 seconds and then the jittered delay of retry 1, not 10 seconds exactly.
\<close>

theorem retry_after_wait_is_followed_by_backoff_counterexample:
  "async_request crawler_adapter limited_once 0 =
     ([Request, Wait 10, Backoff 1, Request], Inr 200) \<and>
   request crawler_adapter limited_once 0 =
     ([Request, Wait 10, Backoff 1, Request], Inr 200)"
proof -
  have l: "\<And>sync. request_loop sync crawler_adapter limited_once 0 0 =
      ([Request, Wait 10, Backoff 1, Request], Inr 200)"
  proof -
    fix sync
    have a: "request_loop sync crawler_adapter limited_once 0 0 =
        prepend (backoff_events 0 @ [Request, Wait 10])
          (request_loop sync crawler_adapter limited_once (0 + 1) (0 + 1))"
      by (rule request_loop_429[where server = limited_once and sent = 0 and ra = "Seconds 10"])
        (simp_all add: crawler_adapter_def limited_once_def retry_after_slept_def sleep_raises_def)
    have b: "request_loop sync crawler_adapter limited_once (0 + 1) (0 + 1) =
        (backoff_events (0 + 1) @ [Request], Inr 200)"
      by (rule request_loop_success[where server = limited_once and sent = "0 + 1" and ra = Absent])
        (simp_all add: crawler_adapter_def limited_once_def is_success_def)
    show "request_loop sync crawler_adapter limited_once 0 0 =
      ([Request, Wait 10, Backoff 1, Request], Inr 200)"
      unfolding a b by (simp add: prepend_def backoff_events_def)
  qed
  show ?thesis
    by (simp add: async_request_def request_def rotation_events_def l prepend_def)
qed

text \<open>
  The first request is answered with 429 and an HTTP date in \<open>Retry-After\<close>, the
  second with 200: between the two requests the transport sleeps the jittered delay of
  retry 1 only.
\<close>

lemma retry_after_date_is_not_slept:
  "async_request crawler_adapter limited_with_date 0 = ([Request, Backoff 1, Request], Inr 200) \<and>
   request crawler_adapter limited_with_date 0 = ([Request, Backoff 1, Request], Inr 200)"
proof -
  have l: "\<And>sync. request_loop sync crawler_adapter limited_with_date 0 0 =
      ([Request, Backoff 1, Request], Inr 200)"
  proof -
    fix sync
    have a: "request_loop sync crawler_adapter limited_with_date 0 0 =
        (if 0 + 1 < max_retries crawler_adapter
         then prepend (backoff_events 0 @ [Request])
           (request_loop sync crawler_adapter limited_with_date (0 + 1) (0 + 1))
         else (backoff_events 0 @ [Request], Inl UnexpectedFailure))"
      by (rule request_loop_429_rejected[where server = limited_with_date and sent = 0
            and ra = NotANumber])
        (simp_all add: crawler_adapter_def limited_with_date_def retry_after_rejected_def)
    have b: "request_loop sync crawler_adapter limited_with_date (0 + 1) (0 + 1) =
        (backoff_events (0 + 1) @ [Request], Inr 200)"
      by (rule request_loop_success[where server = limited_with_date and sent = "0 + 1" and ra = Absent])
        (simp_all add: crawler_adapter_def limited_with_date_def is_success_def)
    have c: "(0::nat) + 1 < max_retries crawler_adapter" by (simp add: crawler_adapter_def)
    show "request_loop sync crawler_adapter limited_with_date 0 0 =
      ([Request, Backoff 1, Request], Inr 200)"
      unfolding a b using c by (simp add: prepend_def backoff_events_def)
  qed
  show ?thesis
    by (simp add: async_request_def request_def rotation_events_def l prepend_def)
qed

text \<open>
  The theorem of claim C8 at the adapter of the crawler: the asynchronous method and the
  server that answers with \<open>Retry-After: 10\<close>, the synchronous method and the server
  that answers with an HTTP date.
\<close>

theorem too_many_requests_wait_then_backoff_witness:
  "(0::nat) < max_retries crawler_adapter \<and>
   limited_once 0 = Response 429 (Seconds 10) \<and>
   retry_after_slept False (Seconds 10) 10 \<and>
   (0::nat) + 1 < max_retries crawler_adapter \<and>
   (\<exists>tr res. request_loop False crawler_adapter limited_once 0 0 =
      (backoff_events 0 @ [Request, Wait 10, Backoff (0 + 1), Request] @ tr, res)) \<and>
   limited_with_date 0 = Response 429 NotANumber \<and>
   retry_after_rejected True NotANumber \<and>
   (\<exists>tr res. request_loop True crawler_adapter limited_with_date 0 0 =
      (backoff_events 0 @ [Request, Backoff (0 + 1), Request] @ tr, res))"
proof -
  have h1: "(0::nat) < max_retries crawler_adapter" by (simp add: crawler_adapter_def)
  have h2: "limited_once 0 = Response 429 (Seconds 10)" by (simp add: limited_once_def)
  have h3: "retry_after_slept False (Seconds 10) 10" by (simp add: retry_after_slept_def)
  have m: "(0::nat) + 1 < max_retries crawler_adapter" by (simp add: crawler_adapter_def)
  have g2: "limited_with_date 0 = Response 429 NotANumber" by (simp add: limited_with_date_def)
  have g3: "retry_after_rejected True NotANumber" by (simp add: retry_after_rejected_def)
  from too_many_requests_wait_then_backoff[where server = limited_once and sent = 0
      and sync = False and w = 10, OF h1 h2] h3 m
  have 1: "\<exists>tr res. request_loop False crawler_adapter limited_once 0 0 =
      (backoff_events 0 @ [Request, Wait 10, Backoff (0 + 1), Request] @ tr, res)" by blast
  from too_many_requests_wait_then_backoff[where server = limited_with_date and sent = 0
      and sync = True and w = 0, OF h1 g2] g3 m
  have 2: "\<exists>tr res. request_loop True crawler_adapter limited_with_date 0 0 =
      (backoff_events 0 @ [Request, Backoff (0 + 1), Request] @ tr, res)" by blast
  from h1 h2 h3 m 1 g2 g3 2 show ?thesis by blast
qed

end
